theory Spec2Isabelle
  imports Main "HOL-Library.AList" "HOL-Library.Sublist" "HOL-Library.List_Lexorder" "HOL-Library.Char_ord"
begin

section \<open>Schema model and query AST\<close>

text \<open>
  The query AST of \<^verbatim>\<open>hygraph-api-client.ts\<close> is an ad hoc JavaScript object tree:
  a selection is the number \<^verbatim>\<open>1\<close>, an aliased primitive selection is the alias string,
  and a nested selection is a plain object. Plain objects are association lists in
  insertion order; \<^const>\<open>AList.update\<close> is JavaScript's property assignment (an existing
  key keeps its position, a new key is appended). Property names are GraphQL names, so
  JavaScript's special ordering of integer-like keys does not arise.
\<close>

datatype ast = One | Str string | Obj "(string \<times> ast) list"

type_synonym astObj = "(string \<times> ast) list"

datatype error = TypeError | RequestError string

text \<open>
  A field is either a list field, whose \<^verbatim>\<open>items\<close> carry the type, or a plain field.
  \<^verbatim>\<open>OtherType\<close> stands for every type the \<^verbatim>\<open>switch\<close> sends to its default branch.
\<close>

datatype itemType = RichText | Color | Image_field | Model "string list" | Reference "string list" | OtherType

datatype fieldType = ListOf itemType | NotList itemType

record field =
  fname :: string
  ftype :: fieldType

record fieldInfo =
  isMultiModel :: bool

record modelContext =
  pluralId :: string
  fieldInfoMap :: "string \<rightharpoonup> fieldInfo"

datatype modelType = DataModel | ObjectModel | PageModel

record model =
  mname :: string
  mtype :: modelType
  mfields :: "field list option"
  mcontext :: "modelContext option"

type_synonym ledger = "string \<rightharpoonup> nat"

definition fieldOrListItem :: "field \<Rightarrow> itemType" where
  "fieldOrListItem f = (case ftype f of ListOf items \<Rightarrow> items | NotList t \<Rightarrow> t)"

definition modelFields :: "model \<Rightarrow> field list" where
  "modelFields m = (case mfields m of None \<Rightarrow> [] | Some fs \<Rightarrow> fs)"

text \<open>\<^verbatim>\<open>model.context!.fieldInfoMap[field.name]!\<close>: reading \<^verbatim>\<open>isMultiModel\<close> of a
  missing entry raises a TypeError.\<close>

definition fieldInfoOf :: "model \<Rightarrow> string \<Rightarrow> fieldInfo option" where
  "fieldInfoOf m n = (case mcontext m of None \<Rightarrow> None | Some c \<Rightarrow> fieldInfoMap c n)"

text \<open>\<^verbatim>\<open>typeof visitedCount !== 'undefined' && visitedCount > 5\<close>\<close>

definition visitedTooOften :: "ledger \<Rightarrow> string \<Rightarrow> bool" where
  "visitedTooOften visitedModelsCount modelName =
     (case visitedModelsCount modelName of None \<Rightarrow> False | Some visitedCount \<Rightarrow> visitedCount > 5)"

text \<open>\<^verbatim>\<open>{ ...visitedModelsCount, [modelName]: (visitedModelsCount[modelName] ?? 0) + 1 }\<close>\<close>

definition visitedCountOf :: "ledger \<Rightarrow> string \<Rightarrow> nat" where
  "visitedCountOf visitedModelsCount modelName =
     (case visitedModelsCount modelName of None \<Rightarrow> 0 | Some c \<Rightarrow> c)"

definition incrVisited :: "ledger \<Rightarrow> string \<Rightarrow> ledger" where
  "incrVisited visitedModelsCount modelName =
     visitedModelsCount(modelName \<mapsto> visitedCountOf visitedModelsCount modelName + 1)"

text \<open>Object spread \<^verbatim>\<open>{ ...base, ...ext }\<close>: the properties of \<^verbatim>\<open>ext\<close> are assigned
  in order onto a copy of \<^verbatim>\<open>base\<close>.\<close>

definition spread :: "astObj \<Rightarrow> astObj \<Rightarrow> astObj" where
  "spread base ext = fold (\<lambda>(k, v). AList.update k v) ext base"

lemma set_update_subset: "set (AList.update k v al) \<subseteq> insert (k, v) (set al)"
  by (induction al) auto

definition aliasForFieldName :: "string \<Rightarrow> string \<Rightarrow> string" where
  "aliasForFieldName fieldName modelName = ''__'' @ modelName @ ''_alias__'' @ fieldName"

text \<open>
  The callback of \<^verbatim>\<open>_.mapValues\<close> in the multi-model branch. A field value produced by
  \<^verbatim>\<open>convertFieldsToQueryAST\<close> is \<^verbatim>\<open>1\<close> or an object; the string case never
  occurs there (JavaScript would spread the characters of the string).
\<close>

fun aliasFieldValue :: "string \<Rightarrow> string \<Rightarrow> ast \<Rightarrow> ast" where
  "aliasFieldValue modelName fieldName One = Str (aliasForFieldName fieldName modelName)"
| "aliasFieldValue modelName fieldName (Obj fieldValue) =
     Obj (spread [(''__alias'', Str (aliasForFieldName fieldName modelName))] fieldValue)"
| "aliasFieldValue modelName fieldName (Str s) =
     Obj [(''__alias'', Str (aliasForFieldName fieldName modelName))]"

definition aliasedModelFields :: "string \<Rightarrow> astObj \<Rightarrow> astObj" where
  "aliasedModelFields modelName fieldsAst =
     map (\<lambda>(fieldName, fieldValue). (fieldName, aliasFieldValue modelName fieldName fieldValue)) fieldsAst"

text \<open>The \<^verbatim>\<open>reduce\<close> of the \<^verbatim>\<open>reference\<close> case: one \<^verbatim>\<open>{ id: 1 }\<close> branch per
  candidate that \<^verbatim>\<open>getModelByName\<close> resolves.\<close>

fun referenceBranches :: "(string \<times> model) list \<Rightarrow> string list \<Rightarrow> astObj \<Rightarrow> astObj" where
  "referenceBranches modelsByName [] accum = accum"
| "referenceBranches modelsByName (modelName # rest) accum =
     (case map_of modelsByName modelName of
        None \<Rightarrow> referenceBranches modelsByName rest accum
      | Some m \<Rightarrow> referenceBranches modelsByName rest (AList.update modelName (Obj [(''id'', One)]) accum))"

text \<open>
  Termination: every recursive call of \<^verbatim>\<open>convertFieldsToQueryAST\<close> is for a model
  name that the table resolves and whose count is at most 5, and it raises that count;
  so the sum over the table's names of how far each count is below 6 decreases.
\<close>

definition budget :: "(string \<times> model) list \<Rightarrow> ledger \<Rightarrow> nat" where
  "budget modelsByName visitedModelsCount =
     sum_list (map (\<lambda>n. 6 - visitedCountOf visitedModelsCount n) (map fst modelsByName))"

definition fieldsSize :: "field list \<Rightarrow> nat" where
  "fieldsSize fs = sum_list (map (\<lambda>f. Suc (case fieldOrListItem f of Model ms \<Rightarrow> length ms | _ \<Rightarrow> 0)) fs)"

lemma budget_incr_less:
  assumes "map_of tbl n = Some m'" and "\<not> visitedTooOften vis n"
  shows "budget tbl (incrVisited vis n) < budget tbl vis"
proof -
  from assms(1) have mem: "n \<in> set (map fst tbl)"
    by (metis map_of_eq_None_iff option.distinct(1) set_map)
  from assms(2) have le: "visitedCountOf vis n \<le> 5"
    by (auto simp: visitedTooOften_def visitedCountOf_def split: option.splits)
  have "sum_list (map (\<lambda>k. 6 - visitedCountOf (incrVisited vis n) k) ks)
        < sum_list (map (\<lambda>k. 6 - visitedCountOf vis k) ks)" if "n \<in> set ks" for ks
    using that
  proof (induction ks)
    case Nil
    then show ?case by simp
  next
    case (Cons k ks)
    have all: "sum_list (map (\<lambda>k. 6 - visitedCountOf (incrVisited vis n) k) ks)
        \<le> sum_list (map (\<lambda>k. 6 - visitedCountOf vis k) ks)"
      by (rule sum_list_mono) (auto simp: incrVisited_def visitedCountOf_def)
    show ?case
    proof (cases "k = n")
      case True
      have "6 - visitedCountOf (incrVisited vis n) n < 6 - visitedCountOf vis n"
        using le by (simp add: incrVisited_def visitedCountOf_def)
      with all True show ?thesis by simp
    next
      case False
      with Cons have "sum_list (map (\<lambda>k. 6 - visitedCountOf (incrVisited vis n) k) ks)
        < sum_list (map (\<lambda>k. 6 - visitedCountOf vis k) ks)" by simp
      moreover have "6 - visitedCountOf (incrVisited vis n) k = 6 - visitedCountOf vis k"
        using False by (simp add: incrVisited_def visitedCountOf_def)
      ultimately show ?thesis by simp
    qed
  qed
  from this[OF mem] show ?thesis by (simp add: budget_def)
qed

text \<open>
  \<^verbatim>\<open>convertFieldsToQueryAST\<close>, with \<^verbatim>\<open>getModelByName\<close> the lookup in the table
  \<^verbatim>\<open>modelsByName\<close> (as \<^verbatim>\<open>getEntries\<close> passes it). The \<^verbatim>\<open>for\<close> loop over the fields
  is \<open>convertFieldsLoop\<close> with the object \<^verbatim>\<open>fieldAst\<close> built so far; the \<^verbatim>\<open>reduce\<close>
  over the candidate models of a multi-model component field is \<open>modelBranches\<close>.
\<close>

function convertFieldsToQueryAST :: "(string \<times> model) list \<Rightarrow> model \<Rightarrow> ledger \<Rightarrow> error + astObj"
  and convertFieldsLoop :: "(string \<times> model) list \<Rightarrow> model \<Rightarrow> ledger \<Rightarrow> field list \<Rightarrow> astObj \<Rightarrow> error + astObj"
  and modelBranches :: "(string \<times> model) list \<Rightarrow> ledger \<Rightarrow> string list \<Rightarrow> astObj \<Rightarrow> error + astObj"
where
  "convertFieldsToQueryAST modelsByName m visitedModelsCount =
     convertFieldsLoop modelsByName m visitedModelsCount (modelFields m) []"
| "convertFieldsLoop modelsByName m visitedModelsCount [] fieldAst = Inr fieldAst"
| "convertFieldsLoop modelsByName m visitedModelsCount (f # rest) fieldAst =
     (case fieldOrListItem f of
        RichText \<Rightarrow>
          convertFieldsLoop modelsByName m visitedModelsCount rest
            (AList.update (fname f) (Obj [(''__typename'', One), (''markdown'', One), (''text'', One)]) fieldAst)
      | Color \<Rightarrow>
          convertFieldsLoop modelsByName m visitedModelsCount rest
            (AList.update (fname f) (Obj [(''__typename'', One), (''hex'', One)]) fieldAst)
      | Image_field \<Rightarrow>
          convertFieldsLoop modelsByName m visitedModelsCount rest
            (AList.update (fname f) (Obj [(''__typename'', One), (''id'', One)]) fieldAst)
      | Model models \<Rightarrow>
          (case fieldInfoOf m (fname f) of
             None \<Rightarrow> Inl TypeError
           | Some info \<Rightarrow>
               if isMultiModel info then
                 (case modelBranches modelsByName visitedModelsCount models [] of
                    Inl e \<Rightarrow> Inl e
                  | Inr branches \<Rightarrow>
                      convertFieldsLoop modelsByName m visitedModelsCount rest
                        (AList.update (fname f) (Obj [(''__typename'', One), (''__on'', Obj branches)]) fieldAst))
               else if length models = 1 then
                 (if visitedTooOften visitedModelsCount (hd models)
                  then convertFieldsLoop modelsByName m visitedModelsCount rest fieldAst
                  else
                    (case map_of modelsByName (hd models) of
                       None \<Rightarrow> convertFieldsLoop modelsByName m visitedModelsCount rest fieldAst
                     | Some m' \<Rightarrow>
                         (case convertFieldsToQueryAST modelsByName m'
                                 (incrVisited visitedModelsCount (hd models)) of
                            Inl e \<Rightarrow> Inl e
                          | Inr sub \<Rightarrow>
                              convertFieldsLoop modelsByName m visitedModelsCount rest
                                (AList.update (fname f)
                                   (Obj (spread [(''__typename'', One), (''id'', One)] sub)) fieldAst))))
               else convertFieldsLoop modelsByName m visitedModelsCount rest fieldAst)
      | Reference models \<Rightarrow>
          (case fieldInfoOf m (fname f) of
             None \<Rightarrow> Inl TypeError
           | Some info \<Rightarrow>
               if isMultiModel info then
                 convertFieldsLoop modelsByName m visitedModelsCount rest
                   (AList.update (fname f)
                      (Obj [(''__typename'', One), (''__on'', Obj (referenceBranches modelsByName models []))])
                      fieldAst)
               else if length models = 1 then
                 convertFieldsLoop modelsByName m visitedModelsCount rest
                   (AList.update (fname f) (Obj [(''__typename'', One), (''id'', One)]) fieldAst)
               else convertFieldsLoop modelsByName m visitedModelsCount rest fieldAst)
      | OtherType \<Rightarrow>
          convertFieldsLoop modelsByName m visitedModelsCount rest (AList.update (fname f) One fieldAst))"
| "modelBranches modelsByName visitedModelsCount [] accum = Inr accum"
| "modelBranches modelsByName visitedModelsCount (modelName # rest) accum =
     (if visitedTooOften visitedModelsCount modelName
      then modelBranches modelsByName visitedModelsCount rest accum
      else
        (case map_of modelsByName modelName of
           None \<Rightarrow> modelBranches modelsByName visitedModelsCount rest accum
         | Some m' \<Rightarrow>
             (case convertFieldsToQueryAST modelsByName m' (incrVisited visitedModelsCount modelName) of
                Inl e \<Rightarrow> Inl e
              | Inr fieldsAst \<Rightarrow>
                  modelBranches modelsByName visitedModelsCount rest
                    (AList.update modelName
                       (Obj (spread [(''id'', One)] (aliasedModelFields modelName fieldsAst))) accum))))"
  by pat_completeness auto

termination
  apply (relation "inv_image (less_than <*lex*> less_than <*lex*> less_than)
      (\<lambda>x. case x of
          Inl (tbl, m, vis) \<Rightarrow> (budget tbl vis, 1::nat, 0::nat)
        | Inr (Inl (tbl, m, vis, fs, acc)) \<Rightarrow> (budget tbl vis, 0, fieldsSize fs)
        | Inr (Inr (tbl, vis, names, acc)) \<Rightarrow> (budget tbl vis, 0, length names))")
  apply (auto simp: budget_incr_less fieldsSize_def)
  done


section \<open>Measuring the query AST\<close>

text \<open>
  In the AST a model name occurs only as a key of an \<^verbatim>\<open>__on\<close> object (it becomes
  \<^verbatim>\<open>... on ModelName { ... }\<close> in the query). \<open>onDepth n ast\<close> is the largest number
  of \<^verbatim>\<open>__on\<close> branches named \<open>n\<close> on one path from the root of \<open>ast\<close> to a leaf.
\<close>

fun maxList :: "nat list \<Rightarrow> nat" where
  "maxList [] = 0"
| "maxList (x # xs) = max x (maxList xs)"













section \<open>Aliases in multi-model branches\<close>








section \<open>Reference fields\<close>











section \<open>Reconciling a webhook with the content API\<close>

text \<open>
  \<^verbatim>\<open>onWebhook\<close> of \<^verbatim>\<open>hygraph-content-source.ts\<close>. Timestamps are the strings the API
  returns; JavaScript compares them as strings, which is the lexicographic order on
  \<open>string\<close>. \<^verbatim>\<open>documentInStages?.find(...)\<close> yields the first entry whose stage is
  \<^verbatim>\<open>PUBLISHED\<close>, or nothing when the property is missing.
\<close>

datatype operation = Create | Update | Publish | Unpublish | Delete

datatype stage = DRAFT | PUBLISHED

record documentInStage =
  stage :: stage
  stageUpdatedAt :: string

record hygraphItem =
  typename :: string
  itemId :: string
  updatedAt :: string
  documentInStages :: "documentInStage list option"

record cachedItem =
  cachedId :: string
  cachedUpdatedAt :: string

definition publishedItem :: "hygraphItem \<Rightarrow> documentInStage option" where
  "publishedItem hygraphItem =
     (case documentInStages hygraphItem of
        None \<Rightarrow> None
      | Some docs \<Rightarrow> find (\<lambda>doc. stage doc = PUBLISHED) docs)"

definition isNewerVersion :: "operation \<Rightarrow> hygraphItem \<Rightarrow> cachedItem option \<Rightarrow> bool" where
  "isNewerVersion operation hygraphItem cachedItem =
     (case operation of
        Create \<Rightarrow> True
      | Update \<Rightarrow>
          (case cachedItem of None \<Rightarrow> True | Some c \<Rightarrow> cachedUpdatedAt c < updatedAt hygraphItem)
      | Publish \<Rightarrow>
          (case publishedItem hygraphItem of
             None \<Rightarrow> False
           | Some p \<Rightarrow> stageUpdatedAt p = updatedAt hygraphItem)
      | Unpublish \<Rightarrow> (case publishedItem hygraphItem of None \<Rightarrow> True | Some p \<Rightarrow> False)
      | Delete \<Rightarrow> True)"

text \<open>
  The effects of \<^verbatim>\<open>onWebhook\<close> are the calls it makes, in order: its own log lines,
  the 500ms sleep, the fetches from the client, the conversions and the cache update.
  The client, the cache and the converters are collaborators; the n-th fetch of one
  webhook is \<open>clientGetEntryById env n\<close> (or \<open>clientGetAssetById env n\<close>), so the content
  API may answer every attempt differently. What the collaborators log themselves is
  not part of the trace.
\<close>

datatype ('a, 'd) contentUpdate =
    Assets "'a list" | Documents "'d list" | DeletedAssetIds "string list" | DeletedDocumentIds "string list"

datatype ('a, 'd) event =
    LogDebug string
  | LogWarn string
  | Sleep nat
  | GetAssetById string
  | GetEntryById string string
  | ConvertAsset hygraphItem
  | ConvertDocument hygraphItem
  | UpdateContent "('a, 'd) contentUpdate"

record ('a, 'd) collaborators =
  cacheGetAssetById :: "string \<Rightarrow> cachedItem option"
  cacheGetDocumentById :: "string \<Rightarrow> cachedItem option"
  clientGetAssetById :: "nat \<Rightarrow> string \<Rightarrow> hygraphItem option"
  clientGetEntryById :: "nat \<Rightarrow> string \<Rightarrow> string \<Rightarrow> hygraphItem option"
  convertAsset :: "hygraphItem \<Rightarrow> 'a"
  convertDocument :: "hygraphItem \<Rightarrow> 'd option"

definition operationName :: "operation \<Rightarrow> string" where
  "operationName operation =
     (case operation of Create \<Rightarrow> ''create'' | Update \<Rightarrow> ''update'' | Publish \<Rightarrow> ''publish''
        | Unpublish \<Rightarrow> ''unpublish'' | Delete \<Rightarrow> ''delete'')"

definition attempt :: "bool \<Rightarrow> string \<Rightarrow> string \<Rightarrow> nat \<Rightarrow> ('a, 'd) event list" where
  "attempt isAsset entryId modelName tries =
     (if tries > 0
      then [LogDebug (if isAsset
                      then ''onWebhook => received older asset from Hygraph, waiting 500ms and retrying''
                      else ''onWebhook => received older entry from Hygraph, waiting 500ms and retrying''),
            Sleep 500]
      else [])
     @ [if isAsset then GetAssetById entryId else GetEntryById entryId modelName]"

function fetchLoop ::
  "operation \<Rightarrow> bool \<Rightarrow> string \<Rightarrow> string \<Rightarrow> (nat \<Rightarrow> hygraphItem option) \<Rightarrow> cachedItem option
     \<Rightarrow> nat \<Rightarrow> ('a, 'd) event list \<Rightarrow> (hygraphItem \<times> bool) option \<times> ('a, 'd) event list"
where
  "fetchLoop operation isAsset entryId modelName fetch cached tries trace =
     (let trace' = trace @ attempt isAsset entryId modelName tries in
      case fetch tries of
        None \<Rightarrow> (None, trace')
      | Some hygraphItem \<Rightarrow>
          (let gotNewerVersion = isNewerVersion operation hygraphItem cached in
           if \<not> gotNewerVersion \<and> tries + 1 < 10
           then fetchLoop operation isAsset entryId modelName fetch cached (tries + 1) trace'
           else (Some (hygraphItem, gotNewerVersion), trace')))"
  by pat_completeness auto
termination
  by (relation "measure (\<lambda>(operation, isAsset, entryId, modelName, fetch, cached, tries, trace). 10 - tries)") auto

declare fetchLoop.simps [simp del]

record webhookPayload =
  operation :: operation
  payloadData :: hygraphItem

definition onWebhook :: "('a, 'd) collaborators \<Rightarrow> webhookPayload \<Rightarrow> ('a, 'd) event list" where
  "onWebhook env payload =
     (let modelName = typename (payloadData payload);
          entryId = itemId (payloadData payload);
          isAsset = (modelName = ''Asset'');
          trace = [LogDebug (''got webhook request, '' @ modelName @ '':'' @ operationName (operation payload))]
      in
      if operation payload = Delete then
        trace @ [UpdateContent (if isAsset then DeletedAssetIds [entryId] else DeletedDocumentIds [entryId])]
      else if isAsset then
        (case fetchLoop (operation payload) True entryId modelName
                (\<lambda>tries. clientGetAssetById env tries entryId) (cacheGetAssetById env entryId) 0 trace of
           (None, trace') \<Rightarrow> trace'
         | (Some (hygraphAsset, gotNewerVersion), trace') \<Rightarrow>
             trace'
             @ (if \<not> gotNewerVersion
                then [LogWarn (''Could not fetch updated asset from Hygraph after receiving ''
                                @ operationName (operation payload) @ '' webhook!'')]
                else [])
             @ [ConvertAsset hygraphAsset, UpdateContent (Assets [convertAsset env hygraphAsset])])
      else
        (case fetchLoop (operation payload) False entryId modelName
                (\<lambda>tries. clientGetEntryById env tries entryId modelName) (cacheGetDocumentById env entryId) 0 trace of
           (None, trace') \<Rightarrow> trace'
         | (Some (hygraphEntry, gotNewerVersion), trace') \<Rightarrow>
             trace'
             @ (if \<not> gotNewerVersion
                then [LogWarn (''Could not fetch updated entry from Hygraph after receiving ''
                                @ operationName (operation payload) @ '' webhook!'')]
                else [])
             @ [ConvertDocument hygraphEntry]
             @ (case convertDocument env hygraphEntry of
                  None \<Rightarrow> []
                | Some document \<Rightarrow> [UpdateContent (Documents [document])])))"

definition attempts :: "bool \<Rightarrow> string \<Rightarrow> string \<Rightarrow> nat \<Rightarrow> nat \<Rightarrow> ('a, 'd) event list" where
  "attempts isAsset entryId modelName lo hi =
     concat (map (attempt isAsset entryId modelName) [lo..<Suc hi])"

definition staleUntil :: "operation \<Rightarrow> (nat \<Rightarrow> hygraphItem option) \<Rightarrow> cachedItem option \<Rightarrow> nat \<Rightarrow> bool" where
  "staleUntil op fetch cached k =
     (\<forall>i < k. \<exists>stale. fetch i = Some stale \<and> \<not> isNewerVersion op stale cached)"




definition isFetch :: "('a, 'd) event \<Rightarrow> bool" where
  "isFetch e = (case e of GetAssetById a \<Rightarrow> True | GetEntryById a b \<Rightarrow> True | _ \<Rightarrow> False)"

definition isWarn :: "('a, 'd) event \<Rightarrow> bool" where
  "isWarn e = (case e of LogWarn w \<Rightarrow> True | _ \<Rightarrow> False)"

definition isUpdate :: "('a, 'd) event \<Rightarrow> bool" where
  "isUpdate e = (case e of UpdateContent u \<Rightarrow> True | _ \<Rightarrow> False)"

definition sleeps :: "('a, 'd) event list \<Rightarrow> nat list" where
  "sleeps trace = concat (map (\<lambda>e. case e of Sleep ms \<Rightarrow> [ms] | _ \<Rightarrow> []) trace)"


definition draftPage :: hygraphItem where
  "draftPage = \<lparr> typename = ''Page'', itemId = ''p1'', updatedAt = ''2024-05-01T09:00:00Z'',
      documentInStages = Some [] \<rparr>"

definition publishedPage :: hygraphItem where
  "publishedPage = \<lparr> typename = ''Page'', itemId = ''p1'', updatedAt = ''2024-05-02T10:00:00Z'',
      documentInStages = Some [\<lparr> stage = PUBLISHED, stageUpdatedAt = ''2024-05-02T10:00:00Z'' \<rparr>] \<rparr>"

definition cachedPage :: cachedItem where
  "cachedPage = \<lparr> cachedId = ''p1'', cachedUpdatedAt = ''2024-05-01T09:00:00Z'' \<rparr>"

text \<open>The two log lines of \<^verbatim>\<open>onWebhook\<close> that carry the operation, and the
  collaborators of two runs: one where the content API keeps answering with the cached
  version, one where the item vanishes.\<close>

definition gotWebhook :: "webhookPayload \<Rightarrow> ('a, 'd) event" where
  "gotWebhook payload =
     LogDebug (''got webhook request, '' @ typename (payloadData payload) @ '':''
                @ operationName (operation payload))"

definition couldNotFetch :: "string \<Rightarrow> webhookPayload \<Rightarrow> ('a, 'd) event" where
  "couldNotFetch kind payload =
     LogWarn (''Could not fetch updated '' @ kind @ '' from Hygraph after receiving ''
               @ operationName (operation payload) @ '' webhook!'')"

definition staleAsset :: hygraphItem where
  "staleAsset = \<lparr> typename = ''Asset'', itemId = ''a1'', updatedAt = ''2024-05-01T09:00:00Z'',
      documentInStages = None \<rparr>"

definition cachedAsset :: cachedItem where
  "cachedAsset = \<lparr> cachedId = ''a1'', cachedUpdatedAt = ''2024-05-01T09:00:00Z'' \<rparr>"

definition staleEnv :: "(string, string) collaborators" where
  "staleEnv = \<lparr> cacheGetAssetById = (\<lambda>assetId. Some cachedAsset),
       cacheGetDocumentById = (\<lambda>documentId. Some cachedPage),
       clientGetAssetById = (\<lambda>tries assetId. Some staleAsset),
       clientGetEntryById = (\<lambda>tries entryId modelName. Some draftPage),
       convertAsset = itemId,
       convertDocument = (\<lambda>hygraphEntry. Some (itemId hygraphEntry)) \<rparr>"

definition vanishingEnv :: "(string, string) collaborators" where
  "vanishingEnv = \<lparr> cacheGetAssetById = (\<lambda>assetId. Some cachedAsset),
       cacheGetDocumentById = (\<lambda>documentId. Some cachedPage),
       clientGetAssetById = (\<lambda>tries assetId. None),
       clientGetEntryById = (\<lambda>tries entryId modelName. if tries < 2 then Some draftPage else None),
       convertAsset = itemId,
       convertDocument = (\<lambda>hygraphEntry. Some (itemId hygraphEntry)) \<rparr>"

definition pageUpdated :: webhookPayload where
  "pageUpdated = \<lparr> operation = Update, payloadData = publishedPage \<rparr>"

definition assetUpdated :: webhookPayload where
  "assetUpdated = \<lparr> operation = Update, payloadData = staleAsset \<rparr>"

section \<open>Fetched data and alias stripping\<close>

text \<open>
  What the content API returns is JSON; \<open>jsValue\<close> holds JavaScript's values as far as
  the client meets them (numbers are the integers). Objects are association lists in
  insertion order, as above.

  \<^verbatim>\<open>removeAliasFieldNames\<close> maps the callback over the entry with \<^verbatim>\<open>deepMap\<close> of
  \<^verbatim>\<open>@stackbit/utils\<close>, which, with \<^verbatim>\<open>iteratePrimitives: false\<close>, applies it to every
  object and array, parents before children, and rebuilds objects with
  \<^verbatim>\<open>_.mapValues\<close> and arrays with \<^verbatim>\<open>_.map\<close>. The callback renames the keys of an
  object whose \<^verbatim>\<open>__typename\<close> is truthy: \<^verbatim>\<open>fieldName.replace(re, '')\<close> with
  \<^verbatim>\<open>re = new RegExp(`^__${value.__typename}_alias__`)\<close>. A type name is a GraphQL name
  (\<open>graphqlName\<close>), so the expression has no metacharacter and matches exactly the keys
  that start with the literal prefix; \<open>stripAlias\<close> removes that prefix. \<^verbatim>\<open>_.mapKeys\<close>
  assigns the values under the new keys in order, a later key overwriting an equal
  earlier one.
\<close>

datatype jsValue =
    JUndefined | JNull | JBool bool | JNum int | JStr string
  | JArr "jsValue list" | JObj "(string \<times> jsValue) list"


definition aliasPrefix :: "string \<Rightarrow> string" where
  "aliasPrefix typeName = ''__'' @ typeName @ ''_alias__''"

definition stripAlias :: "string \<Rightarrow> string \<Rightarrow> string" where
  "stripAlias typeName fieldName =
     (if prefix (aliasPrefix typeName) fieldName
      then drop (length (aliasPrefix typeName)) fieldName
      else fieldName)"

definition mapKeys :: "(string \<Rightarrow> string) \<Rightarrow> (string \<times> 'v) list \<Rightarrow> (string \<times> 'v) list" where
  "mapKeys f kvs = fold (\<lambda>(k, v). AList.update (f k) v) kvs []"

definition typenameOf :: "(string \<times> jsValue) list \<Rightarrow> string option" where
  "typenameOf kvs =
     (case map_of kvs ''__typename'' of
        Some (JStr t) \<Rightarrow> if t \<noteq> [] then Some t else None
      | _ \<Rightarrow> None)"

definition stripAliasKeys :: "(string \<times> jsValue) list \<Rightarrow> (string \<times> jsValue) list" where
  "stripAliasKeys kvs =
     (case typenameOf kvs of None \<Rightarrow> kvs | Some t \<Rightarrow> mapKeys (stripAlias t) kvs)"

lemma mapKeys_values_aux:
  "snd ` set (fold (\<lambda>(k, v). AList.update (f k) v) kvs acc) \<subseteq> snd ` set acc \<union> snd ` set kvs"
proof (induction kvs arbitrary: acc)
  case Nil
  then show ?case by simp
next
  case (Cons kv kvs)
  obtain k v where kv: "kv = (k, v)" by (cases kv)
  have "snd ` set (AList.update (f k) v acc) \<subseteq> insert v (snd ` set acc)"
    using set_update_subset[of "f k" v acc] by force
  with Cons.IH[of "AList.update (f k) v acc"] kv show ?case by auto
qed

lemma stripAliasKeys_values: "snd ` set (stripAliasKeys kvs) \<subseteq> snd ` set kvs"
  using mapKeys_values_aux[of _ kvs "[]"]
  by (auto simp: stripAliasKeys_def mapKeys_def split: option.splits)

function removeAliasFieldNames :: "jsValue \<Rightarrow> jsValue" where
  "removeAliasFieldNames (JObj kvs) =
     JObj (map (\<lambda>(k, v). (k, removeAliasFieldNames v)) (stripAliasKeys kvs))"
| "removeAliasFieldNames (JArr xs) = JArr (map removeAliasFieldNames xs)"
| "removeAliasFieldNames JUndefined = JUndefined"
| "removeAliasFieldNames JNull = JNull"
| "removeAliasFieldNames (JBool b) = JBool b"
| "removeAliasFieldNames (JNum n) = JNum n"
| "removeAliasFieldNames (JStr s) = JStr s"
  by pat_completeness auto
termination
proof (relation "measure size")
  show "wf (measure size)" by simp
next
  fix kvs :: "(string \<times> jsValue) list" and x :: "string \<times> jsValue" and xa xb
  assume "x \<in> set (stripAliasKeys kvs)" and "(xa, xb) = x"
  then have "xb \<in> snd ` set kvs" using stripAliasKeys_values[of kvs] by force
  then obtain k where "(k, xb) \<in> set kvs" by auto
  then have "size xb < size (JObj kvs)"
    by (induction kvs) auto
  then show "(xb, JObj kvs) \<in> measure size" by simp
next
  fix xs :: "jsValue list" and x
  assume "x \<in> set xs"
  then have "size x < size (JArr xs)" by (induction xs) auto
  then show "(x, JArr xs) \<in> measure size" by simp
qed

definition nameChar :: "char \<Rightarrow> bool" where
  "nameChar c = (c \<in> set ''_abcdefghijklmnopqrstuvwxyzABCDEFGHIJKLMNOPQRSTUVWXYZ0123456789'')"

definition graphqlName :: "string \<Rightarrow> bool" where
  "graphqlName n = (n \<noteq> [] \<and> list_all nameChar n \<and> hd n \<notin> set ''0123456789'')"

definition heroItem :: jsValue where
  "heroItem = JObj [(''__typename'', JStr ''Hero''), (''id'', JStr ''h1''),
                    (aliasForFieldName ''title'' ''Hero'', JStr ''Hi''),
                    (aliasForFieldName ''title'' ''Text'', JNull),
                    (''cta'', JObj [(''label'', JStr ''Go''), (''__Hero_alias__x'', JNum 1)])]"

section \<open>Serializing argument values\<close>













section \<open>Fetching all entries\<close>

text \<open>
  \<^verbatim>\<open>getEntries\<close> builds one combined query with a stream per data model, keyed by the
  lower-cased plural id followed by \<^verbatim>\<open>Connection\<close>, and sends it in a do-while loop. A
  stream of the query is kept as its arguments \<open>first\<close> and \<open>skip\<close> and the selection of
  its nodes; a stream of a response as the nodes of its edges and its page info. The
  client's \<^verbatim>\<open>request\<close> is a parameter: given the round and the query it returns the
  response or the error it raised. The loop carries the accumulated \<open>result\<close> and the
  trace of requests and warnings; everything inside \<^verbatim>\<open>try\<close>, the merge of a response
  included, ends in the \<^verbatim>\<open>catch\<close> that warns and returns the empty array, while an
  exception raised when the query is built leaves \<^verbatim>\<open>getEntries\<close> as it is.
\<close>

record streamQuery =
  first :: int
  skip :: int
  node :: astObj

record modelResult =
  edges :: "jsValue list"
  hasNextPage :: bool
  pageSize :: int

type_synonym queryObj = "(string \<times> streamQuery) list"

type_synonym queryResult = "(string \<times> modelResult) list"

datatype clientEvent = SendQuery queryObj | WarnFetching error queryObj

definition toLowerCaseChar :: "char \<Rightarrow> char" where
  "toLowerCaseChar c =
     (case map_of (zip ''ABCDEFGHIJKLMNOPQRSTUVWXYZ'' ''abcdefghijklmnopqrstuvwxyz'') c of
        None \<Rightarrow> c
      | Some l \<Rightarrow> l)"

definition toLowerCaseFirst :: "string \<Rightarrow> string" where
  "toLowerCaseFirst v = (case v of [] \<Rightarrow> [] | c # cs \<Rightarrow> toLowerCaseChar c # cs)"

definition keyBy :: "model list \<Rightarrow> (string \<times> model) list" where
  "keyBy models = fold (\<lambda>m. AList.update (mname m) m) models []"

definition defaultDocumentQueryFields :: "(string \<times> model) list \<Rightarrow> model \<Rightarrow> error + astObj" where
  "defaultDocumentQueryFields modelsByName m =
     (case convertFieldsToQueryAST modelsByName m Map.empty of
        Inl e \<Rightarrow> Inl e
      | Inr fieldsAst \<Rightarrow>
          Inr (spread
                 [(''__typename'', One), (''id'', One), (''createdAt'', One),
                  (''createdBy'', Obj [(''id'', One)]), (''updatedAt'', One),
                  (''updatedBy'', Obj [(''id'', One)]), (''publishedAt'', One),
                  (''publishedBy'', Obj [(''id'', One)]), (''stage'', One),
                  (''documentInStages'',
                   Obj [(''__arguments'', Obj [(''stages'', Obj [(''enum'', Str ''PUBLISHED'')])]),
                        (''stage'', One), (''updatedAt'', One)])]
                 fieldsAst))"

fun buildQuery :: "(string \<times> model) list \<Rightarrow> int option \<Rightarrow> model list \<Rightarrow> queryObj \<Rightarrow> error + queryObj" where
  "buildQuery modelsByName maxPaginationSize [] query = Inr query"
| "buildQuery modelsByName maxPaginationSize (m # dataModels) query =
     (case mcontext m of
        None \<Rightarrow> Inl TypeError
      | Some c \<Rightarrow>
          (case defaultDocumentQueryFields modelsByName m of
             Inl e \<Rightarrow> Inl e
           | Inr fieldsAst \<Rightarrow>
               buildQuery modelsByName maxPaginationSize dataModels
                 (AList.update (toLowerCaseFirst (pluralId c) @ ''Connection'')
                    \<lparr> first = (case maxPaginationSize of None \<Rightarrow> 100 | Some n \<Rightarrow> n), skip = 0,
                      node = fieldsAst \<rparr>
                    query)))"

fun mergeResult ::
  "queryResult \<Rightarrow> queryObj \<Rightarrow> jsValue list \<Rightarrow> string list \<Rightarrow> error + queryObj \<times> jsValue list \<times> string list"
where
  "mergeResult [] query result typesWithNextPage = Inr (query, result, typesWithNextPage)"
| "mergeResult ((queryModelName, modelResult) # rest) query result typesWithNextPage =
     (let result' = result @ map removeAliasFieldNames (edges modelResult) in
      if hasNextPage modelResult then
        (case map_of query queryModelName of
           None \<Rightarrow> Inl TypeError
         | Some streamQuery \<Rightarrow>
             mergeResult rest
               (AList.update queryModelName
                  (streamQuery\<lparr> skip := skip streamQuery + pageSize modelResult \<rparr>) query)
               result' (typesWithNextPage @ [queryModelName]))
      else mergeResult rest query result' typesWithNextPage)"

definition pick :: "queryObj \<Rightarrow> string list \<Rightarrow> queryObj" where
  "pick query keys =
     fold (\<lambda>k picked. case map_of query k of None \<Rightarrow> picked | Some v \<Rightarrow> AList.update k v picked) keys []"

partial_function (option) fetchPages ::
  "(nat \<Rightarrow> queryObj \<Rightarrow> error + queryResult) \<Rightarrow> nat \<Rightarrow> queryObj \<Rightarrow> jsValue list \<Rightarrow> clientEvent list
     \<Rightarrow> (jsValue list \<times> clientEvent list) option"
where
  "fetchPages request round query result trace =
     (case request round query of
        Inl e \<Rightarrow> Some ([], trace @ [SendQuery query, WarnFetching e query])
      | Inr queryResult \<Rightarrow>
          (case mergeResult queryResult query result [] of
             Inl e \<Rightarrow> Some ([], trace @ [SendQuery query, WarnFetching e query])
           | Inr (query', result', typesWithNextPage) \<Rightarrow>
               if typesWithNextPage \<noteq> []
               then fetchPages request (round + 1) (pick query' typesWithNextPage) result'
                      (trace @ [SendQuery query])
               else Some (result', trace @ [SendQuery query])))"

definition getEntries ::
  "(nat \<Rightarrow> queryObj \<Rightarrow> error + queryResult) \<Rightarrow> model list \<Rightarrow> int option
     \<Rightarrow> (error + jsValue list \<times> clientEvent list) option"
where
  "getEntries request models maxPaginationSize =
     (case buildQuery (keyBy models) maxPaginationSize (filter (\<lambda>m. mtype m = DataModel) models) [] of
        Inl e \<Rightarrow> Some (Inl e)
      | Inr query \<Rightarrow> map_option Inr (fetchPages request 0 query [] []))"

text \<open>
  A run is described by the number of pages \<open>pages n\<close> of every stream \<open>n\<close>, the items
  \<open>items r n\<close> and the page size \<open>sizes r n\<close> it reports in round \<open>r\<close>: \<open>queryAt\<close> is the
  query expected in round \<open>r\<close> (the streams that have a page \<open>r\<close>, \<open>skip\<close> advanced by the
  sizes of the pages before), \<open>resultAt\<close> the response to it, and \<open>paged\<close> says that the
  client answers so in the first \<open>rounds\<close> rounds.
\<close>

definition advanced :: "(nat \<Rightarrow> string \<Rightarrow> int) \<Rightarrow> nat \<Rightarrow> string \<times> streamQuery \<Rightarrow> string \<times> streamQuery" where
  "advanced sizes r entry =
     (fst entry, (snd entry)\<lparr> skip := skip (snd entry) + sum_list (map (\<lambda>j. sizes j (fst entry)) [0..<r]) \<rparr>)"

definition queryAt :: "queryObj \<Rightarrow> (string \<Rightarrow> nat) \<Rightarrow> (nat \<Rightarrow> string \<Rightarrow> int) \<Rightarrow> nat \<Rightarrow> queryObj" where
  "queryAt query0 pages sizes r = map (advanced sizes r) (filter (\<lambda>entry. r < pages (fst entry)) query0)"

definition resultAt ::
  "queryObj \<Rightarrow> (string \<Rightarrow> nat) \<Rightarrow> (nat \<Rightarrow> string \<Rightarrow> jsValue list) \<Rightarrow> (nat \<Rightarrow> string \<Rightarrow> int) \<Rightarrow> nat \<Rightarrow> queryResult"
where
  "resultAt query0 pages items sizes r =
     map (\<lambda>entry. (fst entry,
                    \<lparr> edges = items r (fst entry), hasNextPage = (Suc r < pages (fst entry)),
                      pageSize = sizes r (fst entry) \<rparr>))
         (queryAt query0 pages sizes r)"

definition pageItems :: "queryObj \<Rightarrow> (string \<Rightarrow> nat) \<Rightarrow> (nat \<Rightarrow> string \<Rightarrow> jsValue list) \<Rightarrow> nat \<Rightarrow> jsValue list" where
  "pageItems query0 pages items r =
     concat (map (\<lambda>entry. map removeAliasFieldNames (items r (fst entry)))
                 (filter (\<lambda>entry. r < pages (fst entry)) query0))"

definition maxPages :: "queryObj \<Rightarrow> (string \<Rightarrow> nat) \<Rightarrow> nat" where
  "maxPages query0 pages = maxList (map (\<lambda>entry. pages (fst entry)) query0)"

definition paged ::
  "(nat \<Rightarrow> queryObj \<Rightarrow> error + queryResult) \<Rightarrow> queryObj \<Rightarrow> (string \<Rightarrow> nat)
     \<Rightarrow> (nat \<Rightarrow> string \<Rightarrow> jsValue list) \<Rightarrow> (nat \<Rightarrow> string \<Rightarrow> int) \<Rightarrow> nat \<Rightarrow> bool"
where
  "paged request query0 pages items sizes rounds =
     (\<forall>r < rounds. request r (queryAt query0 pages sizes r) = Inr (resultAt query0 pages items sizes r))"

text \<open>
  An example: articles (three of them) and tags (one) are data models, fetched two at a
  time; \<open>newsServer\<close> answers every stream of a query from its \<open>skip\<close> and \<open>first\<close>, and
  \<open>failingServer\<close> raises in the second round.
\<close>

definition articleModel :: model where
  "articleModel = \<lparr> mname = ''Article'', mtype = DataModel,
       mfields = Some [\<lparr> fname = ''title'', ftype = NotList OtherType \<rparr>],
       mcontext = Some \<lparr> pluralId = ''Articles'', fieldInfoMap = Map.empty \<rparr> \<rparr>"

definition tagModel :: model where
  "tagModel = \<lparr> mname = ''Tag'', mtype = DataModel, mfields = Some [],
       mcontext = Some \<lparr> pluralId = ''Tags'', fieldInfoMap = Map.empty \<rparr> \<rparr>"

definition seoModel :: model where
  "seoModel = \<lparr> mname = ''Seo'', mtype = ObjectModel, mfields = Some [],
       mcontext = Some \<lparr> pluralId = ''Seos'', fieldInfoMap = Map.empty \<rparr> \<rparr>"

definition newsModels :: "model list" where
  "newsModels = [articleModel, seoModel, tagModel]"

definition documentFields :: astObj where
  "documentFields =
     [(''__typename'', One), (''id'', One), (''createdAt'', One),
      (''createdBy'', Obj [(''id'', One)]), (''updatedAt'', One),
      (''updatedBy'', Obj [(''id'', One)]), (''publishedAt'', One),
      (''publishedBy'', Obj [(''id'', One)]), (''stage'', One),
      (''documentInStages'',
       Obj [(''__arguments'', Obj [(''stages'', Obj [(''enum'', Str ''PUBLISHED'')])]),
            (''stage'', One), (''updatedAt'', One)])]"

definition newsQuery :: "int \<Rightarrow> queryObj" where
  "newsQuery articlesSkip =
     [(''articlesConnection'',
       \<lparr> first = 2, skip = articlesSkip, node = documentFields @ [(''title'', One)] \<rparr>)]"

definition tagsQuery :: queryObj where
  "tagsQuery = [(''tagsConnection'', \<lparr> first = 2, skip = 0, node = documentFields \<rparr>)]"

definition entryOf :: "string \<Rightarrow> string \<Rightarrow> jsValue" where
  "entryOf t i = JObj [(''__typename'', JStr t), (''id'', JStr i)]"

definition newsData :: "string \<Rightarrow> jsValue list" where
  "newsData n =
     (if n = ''articlesConnection''
      then [entryOf ''Article'' ''a1'', entryOf ''Article'' ''a2'', entryOf ''Article'' ''a3'']
      else if n = ''tagsConnection'' then [entryOf ''Tag'' ''t1''] else [])"

definition newsServer :: "nat \<Rightarrow> queryObj \<Rightarrow> error + queryResult" where
  "newsServer round query =
     Inr (map (\<lambda>(n, sq).
                 (n, \<lparr> edges = take (nat (first sq)) (drop (nat (skip sq)) (newsData n)),
                       hasNextPage = (skip sq + first sq < int (length (newsData n))),
                       pageSize = first sq \<rparr>))
              query)"

definition failingServer :: "nat \<Rightarrow> queryObj \<Rightarrow> error + queryResult" where
  "failingServer round query =
     (if round = 1 then Inl (RequestError ''socket hang up'') else newsServer round query)"

definition newsPages :: "string \<Rightarrow> nat" where
  "newsPages n = (if n = ''articlesConnection'' then 2 else 1)"

definition newsItems :: "nat \<Rightarrow> string \<Rightarrow> jsValue list" where
  "newsItems r n = take 2 (drop (2 * r) (newsData n))"

definition newsSizes :: "nat \<Rightarrow> string \<Rightarrow> int" where
  "newsSizes r n = 2"

section \<open>Properties\<close>

subsection \<open>Bounded expansion of cyclic schemas\<close>

lemma maxList_le_iff: "maxList xs \<le> b \<longleftrightarrow> (\<forall>x \<in> set xs. x \<le> b)"
  by (induction xs) auto





























subsection \<open>Aliases in multi-model branches\<close>












subsection \<open>Reference fields are never expanded\<close>












subsection \<open>Freshness of a fetched item\<close>

lemma attempts_step:
  "t < k \<Longrightarrow> attempt isAsset entryId modelName t @ attempts isAsset entryId modelName (Suc t) k
     = attempts isAsset entryId modelName t k"
  by (simp add: attempts_def upt_conv_Cons)

lemma attempts_single: "attempts isAsset entryId modelName k k = attempt isAsset entryId modelName k"
  by (simp add: attempts_def)


lemma fetchLoop_absent:
  assumes "k < 10" and "fetch k = None"
    and "\<forall>i. t \<le> i \<and> i < k \<longrightarrow> (\<exists>stale. fetch i = Some stale \<and> \<not> isNewerVersion op stale cached)"
    and "t \<le> k"
  shows "fetchLoop op isAsset entryId modelName fetch cached t trace
           = (None, trace @ attempts isAsset entryId modelName t k)"
  using assms(3,4)
proof (induction "k - t" arbitrary: t trace)
  case 0
  then have "t = k" by simp
  with assms(2) show ?case
    by (subst fetchLoop.simps) (simp add: attempts_single)
next
  case (Suc d)
  then have lt: "t < k" by simp
  with Suc.prems(1) obtain stale where s: "fetch t = Some stale" "\<not> isNewerVersion op stale cached"
    by blast
  from lt assms(1) have "t + 1 < 10" by simp
  moreover have "fetchLoop op isAsset entryId modelName fetch cached (Suc t)
                   (trace @ attempt isAsset entryId modelName t)
                 = (None, (trace @ attempt isAsset entryId modelName t)
                      @ attempts isAsset entryId modelName (Suc t) k)"
    using Suc.hyps(2) Suc.prems lt by (intro Suc.hyps(1)) auto
  ultimately show ?case using s attempts_step[OF lt, of isAsset entryId modelName]
    by (subst fetchLoop.simps) simp
qed

lemma fetchLoop_exhausted:
  assumes "fetch 9 = Some item" and "\<not> isNewerVersion op item cached"
    and "\<forall>i. t \<le> i \<and> i < 9 \<longrightarrow> (\<exists>stale. fetch i = Some stale \<and> \<not> isNewerVersion op stale cached)"
    and "t \<le> 9"
  shows "fetchLoop op isAsset entryId modelName fetch cached t trace
           = (Some (item, False), trace @ attempts isAsset entryId modelName t 9)"
  using assms(3,4)
proof (induction "9 - t" arbitrary: t trace)
  case 0
  then have "t = 9" by simp
  with assms(1,2) show ?case
    by (subst fetchLoop.simps) (simp add: attempts_single)
next
  case (Suc d)
  then have lt: "t < 9" by simp
  with Suc.prems(1) obtain stale where s: "fetch t = Some stale" "\<not> isNewerVersion op stale cached"
    by blast
  from lt have "t + 1 < 10" by simp
  moreover have "fetchLoop op isAsset entryId modelName fetch cached (Suc t)
                   (trace @ attempt isAsset entryId modelName t)
                 = (Some (item, False), (trace @ attempt isAsset entryId modelName t)
                      @ attempts isAsset entryId modelName (Suc t) 9)"
    using Suc.hyps(2) Suc.prems lt by (intro Suc.hyps(1)) auto
  ultimately show ?case using s attempts_step[OF lt, of isAsset entryId modelName]
    by (subst fetchLoop.simps) simp
qed







lemma fetchLoop_trace:
  "\<exists>k. t \<le> k \<and> (k < 10 \<or> k = t) \<and>
     snd (fetchLoop op isAsset entryId modelName fetch cached t trace)
       = trace @ attempts isAsset entryId modelName t k"
proof (induction op isAsset entryId modelName fetch cached t trace rule: fetchLoop.induct)
  case (1 op isAsset entryId modelName fetch cached tries trace)
  show ?case
  proof (cases "fetch tries")
    case None
    then have "snd (fetchLoop op isAsset entryId modelName fetch cached tries trace)
                 = trace @ attempts isAsset entryId modelName tries tries"
      by (subst fetchLoop.simps) (simp add: attempts_single)
    then show ?thesis by blast
  next
    case (Some h)
    show ?thesis
    proof (cases "\<not> isNewerVersion op h cached \<and> tries + 1 < 10")
      case True
      from "1.IH"[OF refl Some refl] True obtain k where
        k: "tries + 1 \<le> k" "k < 10 \<or> k = tries + 1"
        "snd (fetchLoop op isAsset entryId modelName fetch cached (tries + 1)
               (trace @ attempt isAsset entryId modelName tries))
           = (trace @ attempt isAsset entryId modelName tries) @ attempts isAsset entryId modelName (tries + 1) k"
        by auto
      from k(1) have lt: "tries < k" by simp
      have "snd (fetchLoop op isAsset entryId modelName fetch cached tries trace)
              = trace @ attempts isAsset entryId modelName tries k"
        using Some True k(3) attempts_step[OF lt, of isAsset entryId modelName]
        by (subst fetchLoop.simps) simp
      moreover from k(2) True have "k < 10" by auto
      ultimately show ?thesis using lt by (intro exI[of _ k]) simp
    next
      case False
      with Some have "snd (fetchLoop op isAsset entryId modelName fetch cached tries trace)
                 = trace @ attempts isAsset entryId modelName tries tries"
        by (subst fetchLoop.simps) (auto simp: attempts_single)
      then show ?thesis by blast
    qed
  qed
qed







subsection \<open>The retry loop of onWebhook\<close>

lemma sleeps_append: "sleeps (xs @ ys) = sleeps xs @ sleeps ys"
  by (simp add: sleeps_def)

lemma attempts_Suc:
  "attempts isAsset entryId modelName 0 (Suc k)
     = attempts isAsset entryId modelName 0 k @ attempt isAsset entryId modelName (Suc k)"
  by (simp add: attempts_def)

lemma attempts_sleeps:
  "sleeps (attempts isAsset entryId modelName 0 k :: ('a, 'd) event list) = replicate k 500"
proof (induction k)
  case 0
  show ?case by (simp add: attempts_def attempt_def sleeps_def)
next
  case (Suc k)
  have "sleeps (attempt isAsset entryId modelName (Suc k) :: ('a, 'd) event list) = [500]"
    by (simp add: attempt_def sleeps_def)
  with Suc show ?case
    unfolding attempts_Suc sleeps_append by (simp add: replicate_append_same)
qed

lemma attempt_events:
  "filter isFetch (attempt isAsset entryId modelName t)
     = [if isAsset then GetAssetById entryId else GetEntryById entryId modelName]"
  "filter isWarn (attempt isAsset entryId modelName t) = []"
  "filter isUpdate (attempt isAsset entryId modelName t) = []"
  by (simp_all add: attempt_def isFetch_def isWarn_def isUpdate_def)

lemma attempts_events:
  "length (filter isFetch (attempts isAsset entryId modelName 0 k)) = Suc k
   \<and> filter isWarn (attempts isAsset entryId modelName 0 k) = []
   \<and> filter isUpdate (attempts isAsset entryId modelName 0 k) = []"
proof (induction k)
  case 0
  show ?case by (simp add: attempts_single attempt_events)
next
  case (Suc k)
  then show ?case unfolding attempts_Suc by (simp add: attempt_events)
qed

text \<open>
  C7. For every operation other than \<^verbatim>\<open>delete\<close> the trace is the opening log line,
  then the attempts 0 to k for some k below 10 (each after the first preceded by the
  retry log line and a 500ms sleep), then events that neither fetch nor sleep. When all
  10 attempts return a stale item, the trace goes on with exactly one warning, the
  conversion of the item of the last attempt, and the cache update with the converted
  item (for an entry: when \<^verbatim>\<open>convertDocument\<close> returns a document, as the guard
  \<^verbatim>\<open>if (!document) return\<close> has it). When attempt j returns nothing, the trace ends
  with that fetch: no retry, no warning, no conversion, no cache update.
\<close>

theorem webhook_retry_outcomes:
  fixes env :: "('a, 'd) collaborators"
  assumes "entryId = itemId (payloadData payload)" and "modelName = typename (payloadData payload)"
    and "operation payload \<noteq> Delete"
  shows
  "(\<exists>k < 10. \<exists>rest. onWebhook env payload
        = gotWebhook payload # attempts (modelName = ''Asset'') entryId modelName 0 k @ rest
        \<and> filter isFetch rest = [] \<and> sleeps rest = [])
   \<and> (modelName \<noteq> ''Asset''
        \<and> staleUntil (operation payload) (\<lambda>tries. clientGetEntryById env tries entryId modelName)
              (cacheGetDocumentById env entryId) 9
        \<and> clientGetEntryById env 9 entryId modelName = Some lastEntry
        \<and> \<not> isNewerVersion (operation payload) lastEntry (cacheGetDocumentById env entryId)
       \<longrightarrow> onWebhook env payload
             = gotWebhook payload # attempts False entryId modelName 0 9
               @ [couldNotFetch ''entry'' payload, ConvertDocument lastEntry]
               @ (case convertDocument env lastEntry of
                    None \<Rightarrow> []
                  | Some document \<Rightarrow> [UpdateContent (Documents [document])])
           \<and> length (filter isFetch (onWebhook env payload)) = 10
           \<and> sleeps (onWebhook env payload) = replicate 9 500
           \<and> length (filter isWarn (onWebhook env payload)) = 1)
   \<and> (modelName = ''Asset''
        \<and> staleUntil (operation payload) (\<lambda>tries. clientGetAssetById env tries entryId)
              (cacheGetAssetById env entryId) 9
        \<and> clientGetAssetById env 9 entryId = Some lastAsset
        \<and> \<not> isNewerVersion (operation payload) lastAsset (cacheGetAssetById env entryId)
       \<longrightarrow> onWebhook env payload
             = gotWebhook payload # attempts True entryId modelName 0 9
               @ [couldNotFetch ''asset'' payload, ConvertAsset lastAsset,
                  UpdateContent (Assets [convertAsset env lastAsset])]
           \<and> length (filter isFetch (onWebhook env payload)) = 10
           \<and> sleeps (onWebhook env payload) = replicate 9 500
           \<and> length (filter isWarn (onWebhook env payload)) = 1)
   \<and> (modelName \<noteq> ''Asset'' \<and> j < 10
        \<and> staleUntil (operation payload) (\<lambda>tries. clientGetEntryById env tries entryId modelName)
              (cacheGetDocumentById env entryId) j
        \<and> clientGetEntryById env j entryId modelName = None
       \<longrightarrow> onWebhook env payload = gotWebhook payload # attempts False entryId modelName 0 j)
   \<and> (modelName = ''Asset'' \<and> j < 10
        \<and> staleUntil (operation payload) (\<lambda>tries. clientGetAssetById env tries entryId)
              (cacheGetAssetById env entryId) j
        \<and> clientGetAssetById env j entryId = None
       \<longrightarrow> onWebhook env payload = gotWebhook payload # attempts True entryId modelName 0 j)"
proof -
  let ?op = "operation payload"
  let ?t0 = "[gotWebhook payload] :: ('a, 'd) event list"
  have t0: "[LogDebug (''got webhook request, '' @ typename (payloadData payload) @ '':''
               @ operationName (operation payload))] = ?t0"
    by (simp add: gotWebhook_def)
  have warnE: "LogWarn (''Could not fetch updated entry from Hygraph after receiving ''
                 @ operationName (operation payload) @ '' webhook!'') = (couldNotFetch ''entry'' payload :: ('a, 'd) event)"
    and warnA: "LogWarn (''Could not fetch updated asset from Hygraph after receiving ''
                 @ operationName (operation payload) @ '' webhook!'') = (couldNotFetch ''asset'' payload :: ('a, 'd) event)"
    by (simp_all add: couldNotFetch_def)
  let ?fe = "\<lambda>tries. clientGetEntryById env tries entryId modelName"
  let ?fa = "\<lambda>tries. clientGetAssetById env tries entryId"
  let ?ce = "cacheGetDocumentById env entryId"
  let ?ca = "cacheGetAssetById env entryId"
  have entry: "onWebhook env payload =
      (case fetchLoop ?op False entryId modelName ?fe ?ce 0 ?t0 of
           (None, trace') \<Rightarrow> trace'
         | (Some (hygraphEntry, gotNewerVersion), trace') \<Rightarrow>
             trace' @ (if \<not> gotNewerVersion then [couldNotFetch ''entry'' payload] else [])
             @ [ConvertDocument hygraphEntry]
             @ (case convertDocument env hygraphEntry of
                  None \<Rightarrow> []
                | Some document \<Rightarrow> [UpdateContent (Documents [document])]))"
    if "modelName \<noteq> ''Asset''"
    using that assms unfolding onWebhook_def Let_def t0 warnE by simp
  have asset: "onWebhook env payload =
      (case fetchLoop ?op True entryId modelName ?fa ?ca 0 ?t0 of
           (None, trace') \<Rightarrow> trace'
         | (Some (hygraphAsset, gotNewerVersion), trace') \<Rightarrow>
             trace' @ (if \<not> gotNewerVersion then [couldNotFetch ''asset'' payload] else [])
             @ [ConvertAsset hygraphAsset, UpdateContent (Assets [convertAsset env hygraphAsset])])"
    if "modelName = ''Asset''"
    using that assms unfolding onWebhook_def Let_def t0 warnA by simp
  have staleU: "\<forall>i. 0 \<le> i \<and> i < k \<longrightarrow> (\<exists>stale. f i = Some stale \<and> \<not> isNewerVersion ?op stale c)"
    if "staleUntil ?op f c k" for f c k
    using that by (simp add: staleUntil_def)
  have general: "\<exists>k < 10. \<exists>rest. onWebhook env payload
        = gotWebhook payload # attempts (modelName = ''Asset'') entryId modelName 0 k @ rest
        \<and> filter isFetch rest = [] \<and> sleeps rest = []"
  proof (cases "modelName = ''Asset''")
    case True
    obtain res tr where r: "fetchLoop ?op True entryId modelName ?fa ?ca 0 ?t0 = (res, tr)"
      by (cases "fetchLoop ?op True entryId modelName ?fa ?ca 0 ?t0")
    from fetchLoop_trace[of 0 ?op True entryId modelName ?fa ?ca ?t0] obtain k where
      k0: "k < 10 \<or> k = 0"
        "snd (fetchLoop ?op True entryId modelName ?fa ?ca 0 ?t0) = ?t0 @ attempts True entryId modelName 0 k"
      by blast
    from k0 r have k: "k < 10" "tr = ?t0 @ attempts True entryId modelName 0 k" by auto
    show ?thesis
    proof (cases res)
      case None
      with asset[OF True] r k True show ?thesis
        by (intro exI[of _ k] conjI exI[of _ "[]"]) (simp_all add: sleeps_def)
    next
      case (Some p)
      obtain h g where "p = (h, g)" by (cases p)
      with Some asset[OF True] r k True show ?thesis
        by (intro exI[of _ k] conjI
              exI[of _ "(if \<not> g then [couldNotFetch ''asset'' payload] else [])
                         @ [ConvertAsset h, UpdateContent (Assets [convertAsset env h])]"])
           (simp_all add: sleeps_def isFetch_def couldNotFetch_def)
    qed
  next
    case False
    obtain res tr where r: "fetchLoop ?op False entryId modelName ?fe ?ce 0 ?t0 = (res, tr)"
      by (cases "fetchLoop ?op False entryId modelName ?fe ?ce 0 ?t0")
    from fetchLoop_trace[of 0 ?op False entryId modelName ?fe ?ce ?t0] obtain k where
      k0: "k < 10 \<or> k = 0"
        "snd (fetchLoop ?op False entryId modelName ?fe ?ce 0 ?t0) = ?t0 @ attempts False entryId modelName 0 k"
      by blast
    from k0 r have k: "k < 10" "tr = ?t0 @ attempts False entryId modelName 0 k" by auto
    show ?thesis
    proof (cases res)
      case None
      with entry[OF False] r k False show ?thesis
        by (intro exI[of _ k] conjI exI[of _ "[]"]) (simp_all add: sleeps_def)
    next
      case (Some p)
      obtain h g where "p = (h, g)" by (cases p)
      with Some entry[OF False] r k False show ?thesis
        by (intro exI[of _ k] conjI
              exI[of _ "(if \<not> g then [couldNotFetch ''entry'' payload] else [])
                         @ [ConvertDocument h]
                         @ (case convertDocument env h of None \<Rightarrow> []
                            | Some document \<Rightarrow> [UpdateContent (Documents [document])])"])
           (simp_all add: sleeps_def isFetch_def couldNotFetch_def split: option.splits)
    qed
  qed
  have evFalse: "length (filter isFetch (attempts False entryId modelName 0 9 :: ('a, 'd) event list)) = Suc 9
       \<and> filter isWarn (attempts False entryId modelName 0 9 :: ('a, 'd) event list) = []
       \<and> filter isUpdate (attempts False entryId modelName 0 9 :: ('a, 'd) event list) = []"
    and evTrue: "length (filter isFetch (attempts True entryId modelName 0 9 :: ('a, 'd) event list)) = Suc 9
       \<and> filter isWarn (attempts True entryId modelName 0 9 :: ('a, 'd) event list) = []
       \<and> filter isUpdate (attempts True entryId modelName 0 9 :: ('a, 'd) event list) = []"
    by (rule attempts_events)+
  have slFalse: "sleeps (attempts False entryId modelName 0 9 :: ('a, 'd) event list) = replicate 9 500"
    and slTrue: "sleeps (attempts True entryId modelName 0 9 :: ('a, 'd) event list) = replicate 9 500"
    by (rule attempts_sleeps)+
  have exhaustedEntry: "onWebhook env payload
             = gotWebhook payload # attempts False entryId modelName 0 9
               @ [couldNotFetch ''entry'' payload, ConvertDocument lastEntry]
               @ (case convertDocument env lastEntry of
                    None \<Rightarrow> []
                  | Some document \<Rightarrow> [UpdateContent (Documents [document])])
           \<and> length (filter isFetch (onWebhook env payload)) = 10
           \<and> sleeps (onWebhook env payload) = replicate 9 500
           \<and> length (filter isWarn (onWebhook env payload)) = 1"
    if a: "modelName \<noteq> ''Asset''
        \<and> staleUntil ?op ?fe ?ce 9
        \<and> clientGetEntryById env 9 entryId modelName = Some lastEntry
        \<and> \<not> isNewerVersion ?op lastEntry ?ce"
  proof -
    have "fetchLoop ?op False entryId modelName ?fe ?ce 0 ?t0
            = (Some (lastEntry, False), ?t0 @ attempts False entryId modelName 0 9)"
      by (rule fetchLoop_exhausted) (use a staleU[of ?fe ?ce 9] in auto)
    with entry a have eq: "onWebhook env payload
             = gotWebhook payload # attempts False entryId modelName 0 9
               @ [couldNotFetch ''entry'' payload, ConvertDocument lastEntry]
               @ (case convertDocument env lastEntry of
                    None \<Rightarrow> []
                  | Some document \<Rightarrow> [UpdateContent (Documents [document])])"
      by simp
    moreover have "length (filter isFetch (onWebhook env payload)) = 10"
      unfolding eq using evFalse
      by (cases "convertDocument env lastEntry") (simp_all add: isFetch_def gotWebhook_def couldNotFetch_def)
    moreover have "sleeps (onWebhook env payload) = replicate 9 500"
      unfolding eq using slFalse
      by (cases "convertDocument env lastEntry") (simp_all add: sleeps_append gotWebhook_def couldNotFetch_def, simp_all add: sleeps_def)
    moreover have "length (filter isWarn (onWebhook env payload)) = 1"
      unfolding eq using evFalse
      by (cases "convertDocument env lastEntry") (simp_all add: isWarn_def gotWebhook_def couldNotFetch_def)
    ultimately show ?thesis by blast
  qed
  have exhaustedAsset: "onWebhook env payload
             = gotWebhook payload # attempts True entryId modelName 0 9
               @ [couldNotFetch ''asset'' payload, ConvertAsset lastAsset,
                  UpdateContent (Assets [convertAsset env lastAsset])]
           \<and> length (filter isFetch (onWebhook env payload)) = 10
           \<and> sleeps (onWebhook env payload) = replicate 9 500
           \<and> length (filter isWarn (onWebhook env payload)) = 1"
    if a: "modelName = ''Asset''
        \<and> staleUntil ?op ?fa ?ca 9
        \<and> clientGetAssetById env 9 entryId = Some lastAsset
        \<and> \<not> isNewerVersion ?op lastAsset ?ca"
  proof -
    have "fetchLoop ?op True entryId modelName ?fa ?ca 0 ?t0
            = (Some (lastAsset, False), ?t0 @ attempts True entryId modelName 0 9)"
      by (rule fetchLoop_exhausted) (use a staleU[of ?fa ?ca 9] in auto)
    with asset a have eq: "onWebhook env payload
             = gotWebhook payload # attempts True entryId modelName 0 9
               @ [couldNotFetch ''asset'' payload, ConvertAsset lastAsset,
                  UpdateContent (Assets [convertAsset env lastAsset])]"
      by simp
    moreover have "length (filter isFetch (onWebhook env payload)) = 10"
      unfolding eq using evTrue
      by (simp add: isFetch_def gotWebhook_def couldNotFetch_def)
    moreover have "sleeps (onWebhook env payload) = replicate 9 500"
      unfolding eq using slTrue
      by (simp add: sleeps_def gotWebhook_def couldNotFetch_def)
    moreover have "length (filter isWarn (onWebhook env payload)) = 1"
      unfolding eq using evTrue
      by (simp add: isWarn_def gotWebhook_def couldNotFetch_def)
    ultimately show ?thesis by blast
  qed
  have absentEntry: "onWebhook env payload = gotWebhook payload # attempts False entryId modelName 0 j"
    if a: "modelName \<noteq> ''Asset'' \<and> j < 10
        \<and> staleUntil ?op ?fe ?ce j
        \<and> clientGetEntryById env j entryId modelName = None"
  proof -
    have "fetchLoop ?op False entryId modelName ?fe ?ce 0 ?t0
            = (None, ?t0 @ attempts False entryId modelName 0 j)"
      by (rule fetchLoop_absent) (use a staleU[of ?fe ?ce j] in auto)
    with entry a show ?thesis by simp
  qed
  have absentAsset: "onWebhook env payload = gotWebhook payload # attempts True entryId modelName 0 j"
    if a: "modelName = ''Asset'' \<and> j < 10
        \<and> staleUntil ?op ?fa ?ca j
        \<and> clientGetAssetById env j entryId = None"
  proof -
    have "fetchLoop ?op True entryId modelName ?fa ?ca 0 ?t0
            = (None, ?t0 @ attempts True entryId modelName 0 j)"
      by (rule fetchLoop_absent) (use a staleU[of ?fa ?ca j] in auto)
    with asset a show ?thesis by simp
  qed
  from general exhaustedEntry exhaustedAsset absentEntry absentAsset show ?thesis by blast
qed


theorem webhook_retry_outcomes_witness:
  "onWebhook staleEnv pageUpdated
     = gotWebhook pageUpdated # attempts False ''p1'' ''Page'' 0 9
       @ [couldNotFetch ''entry'' pageUpdated, ConvertDocument draftPage, UpdateContent (Documents [''p1''])]
   \<and> length (filter isFetch (onWebhook staleEnv pageUpdated)) = 10
   \<and> sleeps (onWebhook staleEnv pageUpdated) = replicate 9 500
   \<and> length (filter isWarn (onWebhook staleEnv pageUpdated)) = 1
   \<and> onWebhook staleEnv assetUpdated
     = gotWebhook assetUpdated # attempts True ''a1'' ''Asset'' 0 9
       @ [couldNotFetch ''asset'' assetUpdated, ConvertAsset staleAsset, UpdateContent (Assets [''a1''])]
   \<and> onWebhook vanishingEnv pageUpdated = gotWebhook pageUpdated # attempts False ''p1'' ''Page'' 0 2
   \<and> onWebhook vanishingEnv assetUpdated = gotWebhook assetUpdated # attempts True ''a1'' ''Asset'' 0 0"
proof -
  have page: "''p1'' = itemId (payloadData pageUpdated)" "''Page'' = typename (payloadData pageUpdated)"
    "operation pageUpdated \<noteq> Delete"
    by (simp_all add: pageUpdated_def publishedPage_def)
  have asset: "''a1'' = itemId (payloadData assetUpdated)" "''Asset'' = typename (payloadData assetUpdated)"
    "operation assetUpdated \<noteq> Delete"
    by (simp_all add: assetUpdated_def staleAsset_def)
  have e1: "''Page'' \<noteq> ''Asset''
        \<and> staleUntil (operation pageUpdated) (\<lambda>tries. clientGetEntryById staleEnv tries ''p1'' ''Page'')
              (cacheGetDocumentById staleEnv ''p1'') 9
        \<and> clientGetEntryById staleEnv 9 ''p1'' ''Page'' = Some draftPage
        \<and> \<not> isNewerVersion (operation pageUpdated) draftPage (cacheGetDocumentById staleEnv ''p1'')"
    by (simp add: staleUntil_def isNewerVersion_def staleEnv_def pageUpdated_def draftPage_def cachedPage_def)
  have e2: "''Asset'' = ''Asset''
        \<and> staleUntil (operation assetUpdated) (\<lambda>tries. clientGetAssetById staleEnv tries ''a1'')
              (cacheGetAssetById staleEnv ''a1'') 9
        \<and> clientGetAssetById staleEnv 9 ''a1'' = Some staleAsset
        \<and> \<not> isNewerVersion (operation assetUpdated) staleAsset (cacheGetAssetById staleEnv ''a1'')"
    by (simp add: staleUntil_def isNewerVersion_def staleEnv_def assetUpdated_def staleAsset_def cachedAsset_def)
  have e3: "''Page'' \<noteq> ''Asset'' \<and> (2::nat) < 10
        \<and> staleUntil (operation pageUpdated) (\<lambda>tries. clientGetEntryById vanishingEnv tries ''p1'' ''Page'')
              (cacheGetDocumentById vanishingEnv ''p1'') 2
        \<and> clientGetEntryById vanishingEnv 2 ''p1'' ''Page'' = None"
    by (simp add: staleUntil_def isNewerVersion_def vanishingEnv_def pageUpdated_def draftPage_def cachedPage_def)
  have e4: "''Asset'' = ''Asset'' \<and> (0::nat) < 10
        \<and> staleUntil (operation assetUpdated) (\<lambda>tries. clientGetAssetById vanishingEnv tries ''a1'')
              (cacheGetAssetById vanishingEnv ''a1'') 0
        \<and> clientGetAssetById vanishingEnv 0 ''a1'' = None"
    by (simp add: staleUntil_def vanishingEnv_def)
  have conv: "convertDocument staleEnv draftPage = Some ''p1''" "convertAsset staleEnv staleAsset = ''a1''"
    by (simp_all add: staleEnv_def draftPage_def staleAsset_def)
  from webhook_retry_outcomes[OF page, of staleEnv draftPage] e1
  have 1: "onWebhook staleEnv pageUpdated
             = gotWebhook pageUpdated # attempts False ''p1'' ''Page'' 0 9
               @ [couldNotFetch ''entry'' pageUpdated, ConvertDocument draftPage]
               @ (case convertDocument staleEnv draftPage of
                    None \<Rightarrow> []
                  | Some document \<Rightarrow> [UpdateContent (Documents [document])])
           \<and> length (filter isFetch (onWebhook staleEnv pageUpdated)) = 10
           \<and> sleeps (onWebhook staleEnv pageUpdated) = replicate 9 500
           \<and> length (filter isWarn (onWebhook staleEnv pageUpdated)) = 1"
    by blast
  from webhook_retry_outcomes[OF asset, of staleEnv _ staleAsset] e2
  have 2: "onWebhook staleEnv assetUpdated
             = gotWebhook assetUpdated # attempts True ''a1'' ''Asset'' 0 9
               @ [couldNotFetch ''asset'' assetUpdated, ConvertAsset staleAsset,
                  UpdateContent (Assets [convertAsset staleEnv staleAsset])]"
    by blast
  from webhook_retry_outcomes[OF page, of vanishingEnv _ _ 2] e3
  have 3: "onWebhook vanishingEnv pageUpdated = gotWebhook pageUpdated # attempts False ''p1'' ''Page'' 0 2"
    by blast
  from webhook_retry_outcomes[OF asset, of vanishingEnv _ _ 0] e4
  have 4: "onWebhook vanishingEnv assetUpdated = gotWebhook assetUpdated # attempts True ''a1'' ''Asset'' 0 0"
    by blast
  from 1 conv have pageTrace: "onWebhook staleEnv pageUpdated
     = gotWebhook pageUpdated # attempts False ''p1'' ''Page'' 0 9
       @ [couldNotFetch ''entry'' pageUpdated, ConvertDocument draftPage, UpdateContent (Documents [''p1''])]"
    by simp
  from 2 conv have assetTrace: "onWebhook staleEnv assetUpdated
     = gotWebhook assetUpdated # attempts True ''a1'' ''Asset'' 0 9
       @ [couldNotFetch ''asset'' assetUpdated, ConvertAsset staleAsset, UpdateContent (Assets [''a1''])]"
    by simp
  from 1 pageTrace assetTrace 3 4 show ?thesis by blast
qed

subsection \<open>Alias stripping\<close>

lemma update_new_key: "k \<notin> fst ` set al \<Longrightarrow> AList.update k v al = al @ [(k, v)]"
  by (induction al) auto

lemma mapKeys_fold_distinct:
  "distinct (map fst acc @ map f (map fst kvs)) \<Longrightarrow>
     fold (\<lambda>(k, v). AList.update (f k) v) kvs acc = acc @ map (\<lambda>(k, v). (f k, v)) kvs"
proof (induction kvs arbitrary: acc)
  case Nil
  then show ?case by simp
next
  case (Cons kv kvs)
  obtain k v where kv: "kv = (k, v)" by (cases kv)
  from Cons.prems kv have new: "f k \<notin> fst ` set acc" by auto
  have upd: "AList.update (f k) v acc = acc @ [(f k, v)]" by (rule update_new_key[OF new])
  from Cons.prems kv have "distinct (map fst (acc @ [(f k, v)]) @ map f (map fst kvs))" by auto
  from Cons.IH[OF this] upd kv show ?case by simp
qed

lemma mapKeys_distinct:
  "distinct (map f (map fst kvs)) \<Longrightarrow> mapKeys f kvs = map (\<lambda>(k, v). (f k, v)) kvs"
  using mapKeys_fold_distinct[of "[]" f kvs] by (simp add: mapKeys_def)

lemma mapKeys_fold_keys:
  "fst ` set (fold (\<lambda>(k, v). AList.update (f k) v) kvs acc) = fst ` set acc \<union> f ` fst ` set kvs"
proof (induction kvs arbitrary: acc)
  case Nil
  then show ?case by simp
next
  case (Cons kv kvs)
  obtain k v where kv: "kv = (k, v)" by (cases kv)
  show ?case unfolding kv using Cons.IH[of "AList.update (f k) v acc"]
    by (auto simp: dom_update)
qed

lemma mapKeys_keys: "fst ` set (mapKeys f kvs) = f ` fst ` set kvs"
  using mapKeys_fold_keys[of f kvs "[]"] by (simp add: mapKeys_def)

lemma stripAlias_alias: "stripAlias typeName (aliasForFieldName fieldName typeName) = fieldName"
  by (simp add: stripAlias_def aliasPrefix_def aliasForFieldName_def)

lemma stripAlias_prefix: "prefix (aliasPrefix typeName) k \<Longrightarrow> aliasPrefix typeName @ stripAlias typeName k = k"
  by (auto simp: stripAlias_def prefix_def)

lemma stripAlias_other: "\<not> prefix (aliasPrefix typeName) k \<Longrightarrow> stripAlias typeName k = k"
  by (simp add: stripAlias_def)

text \<open>
  C3, as the code has it. For an object whose \<^verbatim>\<open>__typename\<close> is the name T, the keys
  of the result are the keys with the prefix \<^verbatim>\<open>__T_alias__\<close> stripped (when no two
  keys collide, entry by entry, values processed recursively); a key aliased for T maps
  back to the field name; a key that starts with the prefix loses exactly the prefix; a
  key that does not start with it is unchanged; an object without a \<^verbatim>\<open>__typename\<close>
  keeps its keys.
\<close>

theorem removeAliasFieldNames_strips_prefix:
  assumes "map_of kvs ''__typename'' = Some (JStr typeName)" and "graphqlName typeName"
  shows "(\<exists>stripped. removeAliasFieldNames (JObj kvs) = JObj stripped
           \<and> fst ` set stripped = stripAlias typeName ` fst ` set kvs
           \<and> (distinct (map (stripAlias typeName) (map fst kvs)) \<longrightarrow>
                stripped = map (\<lambda>(k, v). (stripAlias typeName k, removeAliasFieldNames v)) kvs))
         \<and> stripAlias typeName (aliasForFieldName fieldName typeName) = fieldName
         \<and> (prefix (aliasPrefix typeName) k \<longrightarrow> aliasPrefix typeName @ stripAlias typeName k = k)
         \<and> (\<not> prefix (aliasPrefix typeName) k \<longrightarrow> stripAlias typeName k = k)
         \<and> (typenameOf other = None \<longrightarrow>
              removeAliasFieldNames (JObj other) = JObj (map (\<lambda>(k, v). (k, removeAliasFieldNames v)) other))"
proof -
  from assms have t: "typenameOf kvs = Some typeName"
    by (simp add: typenameOf_def graphqlName_def)
  let ?stripped = "map (\<lambda>(k, v). (k, removeAliasFieldNames v)) (mapKeys (stripAlias typeName) kvs)"
  have r: "removeAliasFieldNames (JObj kvs) = JObj ?stripped"
    using t by (simp add: stripAliasKeys_def)
  have "fst ` set ?stripped = fst ` set (mapKeys (stripAlias typeName) kvs)" by force
  then have keys: "fst ` set ?stripped = stripAlias typeName ` fst ` set kvs"
    by (simp add: mapKeys_keys)
  have d: "?stripped = map (\<lambda>(k, v). (stripAlias typeName k, removeAliasFieldNames v)) kvs"
    if "distinct (map (stripAlias typeName) (map fst kvs))"
    using mapKeys_distinct[OF that] by (simp add: case_prod_unfold)
  have o: "removeAliasFieldNames (JObj other) = JObj (map (\<lambda>(k, v). (k, removeAliasFieldNames v)) other)"
    if "typenameOf other = None"
    using that by (simp add: stripAliasKeys_def)
  show ?thesis
  proof (intro conjI impI)
    show "\<exists>stripped. removeAliasFieldNames (JObj kvs) = JObj stripped
           \<and> fst ` set stripped = stripAlias typeName ` fst ` set kvs
           \<and> (distinct (map (stripAlias typeName) (map fst kvs)) \<longrightarrow>
                stripped = map (\<lambda>(k, v). (stripAlias typeName k, removeAliasFieldNames v)) kvs)"
      using r keys d by (intro exI[of _ ?stripped]) blast
    show "stripAlias typeName (aliasForFieldName fieldName typeName) = fieldName"
      by (rule stripAlias_alias)
    show "aliasPrefix typeName @ stripAlias typeName k = k" if "prefix (aliasPrefix typeName) k"
      using that by (rule stripAlias_prefix)
    show "stripAlias typeName k = k" if "\<not> prefix (aliasPrefix typeName) k"
      using that by (rule stripAlias_other)
    show "removeAliasFieldNames (JObj other) = JObj (map (\<lambda>(k, v). (k, removeAliasFieldNames v)) other)"
      if "typenameOf other = None"
      using that by (rule o)
  qed
qed

theorem removeAliasFieldNames_strips_prefix_witness:
  "map_of [(''__typename'', JStr ''Hero''), (''id'', JStr ''h1''),
           (aliasForFieldName ''title'' ''Hero'', JStr ''Hi''),
           (aliasForFieldName ''title'' ''Text'', JNull),
           (''cta'', JObj [(''label'', JStr ''Go''), (''__Hero_alias__x'', JNum 1)])] ''__typename''
     = Some (JStr ''Hero'')
   \<and> graphqlName ''Hero''
   \<and> removeAliasFieldNames heroItem
       = JObj [(''__typename'', JStr ''Hero''), (''id'', JStr ''h1''), (''title'', JStr ''Hi''),
               (''__Text_alias__title'', JNull),
               (''cta'', JObj [(''label'', JStr ''Go''), (''__Hero_alias__x'', JNum 1)])]
   \<and> stripAlias ''Hero'' (aliasForFieldName ''title'' ''Hero'') = ''title''
   \<and> stripAlias ''Hero'' (aliasForFieldName ''title'' ''Text'') = aliasForFieldName ''title'' ''Text''"
proof -
  let ?kvs = "[(''__typename'', JStr ''Hero''), (''id'', JStr ''h1''),
           (aliasForFieldName ''title'' ''Hero'', JStr ''Hi''),
           (aliasForFieldName ''title'' ''Text'', JNull),
           (''cta'', JObj [(''label'', JStr ''Go''), (''__Hero_alias__x'', JNum 1)])]"
  have a: "map_of ?kvs ''__typename'' = Some (JStr ''Hero'')" by simp
  have g: "graphqlName ''Hero''" by (simp add: graphqlName_def nameChar_def)
  have np: "\<not> prefix (aliasPrefix ''Hero'') (aliasForFieldName ''title'' ''Text'')"
    by (simp add: aliasPrefix_def aliasForFieldName_def)
  have eval: "removeAliasFieldNames heroItem
       = JObj [(''__typename'', JStr ''Hero''), (''id'', JStr ''h1''), (''title'', JStr ''Hi''),
               (''__Text_alias__title'', JNull),
               (''cta'', JObj [(''label'', JStr ''Go''), (''__Hero_alias__x'', JNum 1)])]"
    by (simp add: heroItem_def stripAliasKeys_def typenameOf_def mapKeys_def stripAlias_def
        aliasPrefix_def aliasForFieldName_def)
  note T = removeAliasFieldNames_strips_prefix[OF a g, of "''title''" "aliasForFieldName ''title'' ''Text''" "[]"]
  have 3: "stripAlias ''Hero'' (aliasForFieldName ''title'' ''Hero'') = ''title''"
    by (rule T[THEN conjunct2, THEN conjunct1])
  have 4: "stripAlias ''Hero'' (aliasForFieldName ''title'' ''Text'') = aliasForFieldName ''title'' ''Text''"
    by (rule T[THEN conjunct2, THEN conjunct2, THEN conjunct2, THEN conjunct1, THEN mp, OF np])
  from a g eval 3 4 show ?thesis by (intro conjI)
qed


text \<open>
  The claim says that a key carrying another model's alias prefix is left unchanged.
  It is not when the prefix of T starts the prefix of the other model: with T =
  \<^verbatim>\<open>A\<close> the key \<^verbatim>\<open>__A_alias__B_alias__f\<close>, which is the alias of \<^verbatim>\<open>f\<close> for the
  model \<^verbatim>\<open>A_alias__B\<close>, becomes \<^verbatim>\<open>B_alias__f\<close>.
\<close>

theorem other_alias_prefix_stripped:
  "''A_alias__B'' \<noteq> ''A''
   \<and> removeAliasFieldNames
        (JObj [(''__typename'', JStr ''A''), (aliasForFieldName ''f'' ''A_alias__B'', JNum 1)])
      = JObj [(''__typename'', JStr ''A''), (''B_alias__f'', JNum 1)]"
  by (simp add: stripAliasKeys_def typenameOf_def mapKeys_def stripAlias_def aliasPrefix_def
      aliasForFieldName_def)

subsection \<open>Argument serialization\<close>







subsection \<open>Pagination of getEntries\<close>

lemma mergeResult_paged:
  assumes "distinct (map fst es)" and "fst ` set es \<subseteq> fst ` set query"
  shows "\<exists>query'. mergeResult (map (\<lambda>entry. (fst entry, \<lparr> edges = its (fst entry), hasNextPage = nxt (fst entry),
                                                           pageSize = sz (fst entry) \<rparr>)) es)
                    query result types
           = Inr (query',
                  result @ concat (map (\<lambda>entry. map removeAliasFieldNames (its (fst entry))) es),
                  types @ map fst (filter (\<lambda>entry. nxt (fst entry)) es))
         \<and> fst ` set query' = fst ` set query
         \<and> (\<forall>k. map_of query' k =
                (if k \<in> fst ` set (filter (\<lambda>entry. nxt (fst entry)) es)
                 then map_option (\<lambda>sq. sq\<lparr> skip := skip sq + sz k \<rparr>) (map_of query k)
                 else map_of query k))"
  using assms
proof (induction es arbitrary: query result types)
  case Nil
  then show ?case by simp
next
  case (Cons entry es)
  obtain n sq0 where entry: "entry = (n, sq0)" by (cases entry)
  from Cons.prems entry have d: "distinct (map fst es)" and notin: "n \<notin> fst ` set es"
    and sub: "fst ` set es \<subseteq> fst ` set query" and nin: "n \<in> fst ` set query"
    by auto
  show ?case
  proof (cases "nxt n")
    case False
    from Cons.IH[OF d sub, of "result @ map removeAliasFieldNames (its n)" types]
    obtain query' where
      m: "mergeResult (map (\<lambda>entry. (fst entry, \<lparr> edges = its (fst entry), hasNextPage = nxt (fst entry),
                                                 pageSize = sz (fst entry) \<rparr>)) es)
            query (result @ map removeAliasFieldNames (its n)) types
          = Inr (query',
                 (result @ map removeAliasFieldNames (its n))
                   @ concat (map (\<lambda>entry. map removeAliasFieldNames (its (fst entry))) es),
                 types @ map fst (filter (\<lambda>entry. nxt (fst entry)) es))"
      and k: "fst ` set query' = fst ` set query"
      and v: "\<forall>k. map_of query' k =
                (if k \<in> fst ` set (filter (\<lambda>entry. nxt (fst entry)) es)
                 then map_option (\<lambda>sq. sq\<lparr> skip := skip sq + sz k \<rparr>) (map_of query k)
                 else map_of query k)"
      by blast
    from False entry m k v show ?thesis
      by (intro exI[of _ query']) (auto simp: Let_def)
  next
    case True
    from nin obtain sq where sq: "map_of query n = Some sq"
      by (metis domD dom_map_of_conv_image_fst)
    let ?q1 = "AList.update n (sq\<lparr> skip := skip sq + sz n \<rparr>) query"
    have sub1: "fst ` set es \<subseteq> fst ` set ?q1" using sub by (auto simp: dom_update)
    from Cons.IH[OF d sub1, of "result @ map removeAliasFieldNames (its n)" "types @ [n]"]
    obtain query' where
      m: "mergeResult (map (\<lambda>entry. (fst entry, \<lparr> edges = its (fst entry), hasNextPage = nxt (fst entry),
                                                 pageSize = sz (fst entry) \<rparr>)) es)
            ?q1 (result @ map removeAliasFieldNames (its n)) (types @ [n])
          = Inr (query',
                 (result @ map removeAliasFieldNames (its n))
                   @ concat (map (\<lambda>entry. map removeAliasFieldNames (its (fst entry))) es),
                 (types @ [n]) @ map fst (filter (\<lambda>entry. nxt (fst entry)) es))"
      and k: "fst ` set query' = fst ` set ?q1"
      and v: "\<forall>k. map_of query' k =
                (if k \<in> fst ` set (filter (\<lambda>entry. nxt (fst entry)) es)
                 then map_option (\<lambda>sq. sq\<lparr> skip := skip sq + sz k \<rparr>) (map_of ?q1 k)
                 else map_of ?q1 k)"
      by blast
    have keys: "fst ` set query' = fst ` set query" using k nin by (auto simp: dom_update)
    have vals: "map_of query' k =
                (if k \<in> fst ` set (filter (\<lambda>entry. nxt (fst entry)) (entry # es))
                 then map_option (\<lambda>sq. sq\<lparr> skip := skip sq + sz k \<rparr>) (map_of query k)
                 else map_of query k)" for k
    proof (cases "k = n")
      case True
      with notin have "k \<notin> fst ` set (filter (\<lambda>entry. nxt (fst entry)) es)" by auto
      with v True \<open>nxt n\<close> entry sq show ?thesis by (simp add: update_conv')
    next
      case False
      with v entry show ?thesis by (simp add: update_conv')
    qed
    from True entry sq m keys vals show ?thesis
      by (intro exI[of _ query']) (simp add: Let_def)
  qed
qed


lemma pick_fold:
  "distinct (map fst acc @ ks) \<Longrightarrow> \<forall>k \<in> set ks. map_of query k \<noteq> None \<Longrightarrow>
     fold (\<lambda>k picked. case map_of query k of None \<Rightarrow> picked | Some v \<Rightarrow> AList.update k v picked) ks acc
       = acc @ map (\<lambda>k. (k, the (map_of query k))) ks"
proof (induction ks arbitrary: acc)
  case Nil
  then show ?case by simp
next
  case (Cons k ks)
  from Cons.prems obtain v where v: "map_of query k = Some v" by auto
  from Cons.prems have new: "k \<notin> fst ` set acc" by auto
  have upd: "AList.update k v acc = acc @ [(k, v)]" by (rule update_new_key[OF new])
  from Cons.prems have "distinct (map fst (acc @ [(k, v)]) @ ks)" by auto
  from Cons.IH[OF this] Cons.prems(2) v upd show ?case by simp
qed

lemma pick_distinct:
  "distinct ks \<Longrightarrow> \<forall>k \<in> set ks. map_of query k \<noteq> None \<Longrightarrow>
     pick query ks = map (\<lambda>k. (k, the (map_of query k))) ks"
  using pick_fold[of "[]" ks query] by (simp add: pick_def)

lemma less_maxList_iff: "n < maxList xs \<longleftrightarrow> (\<exists>x \<in> set xs. n < x)"
  using maxList_le_iff[of xs n] by (auto simp: not_le[symmetric])

lemma fst_advanced [simp]: "fst (advanced sizes r entry) = fst entry"
  by (simp add: advanced_def)

lemma map_fst_queryAt:
  "map fst (queryAt query0 pages sizes r) = map fst (filter (\<lambda>entry. r < pages (fst entry)) query0)"
  by (simp add: queryAt_def comp_def)

lemma queryAt_Suc:
  "map (\<lambda>entry. (fst entry, (snd entry)\<lparr> skip := skip (snd entry) + sizes r (fst entry) \<rparr>))
       (filter (\<lambda>entry. Suc r < pages (fst entry)) (queryAt query0 pages sizes r))
     = queryAt query0 pages sizes (Suc r)"
proof -
  have f: "filter (\<lambda>entry. Suc r < pages (fst entry)) (queryAt query0 pages sizes r)
             = map (advanced sizes r) (filter (\<lambda>entry. Suc r < pages (fst entry)) query0)"
    unfolding queryAt_def filter_map comp_def
    by (simp add: conj_commute cong: conj_cong) (metis (mono_tags, lifting) Suc_lessD filter_cong)
  show ?thesis unfolding f
    by (simp add: queryAt_def advanced_def comp_def add.assoc)
qed

lemma queryAt_empty_iff:
  "queryAt query0 pages sizes r = [] \<longleftrightarrow> \<not> r < maxPages query0 pages"
  by (auto simp: queryAt_def maxPages_def less_maxList_iff filter_empty_conv)

lemma queryAt_0:
  "\<forall>entry \<in> set query0. 0 < pages (fst entry) \<Longrightarrow> queryAt query0 pages sizes 0 = query0"
  by (simp add: queryAt_def advanced_def map_idI)

lemma round_paged:
  assumes d: "distinct (map fst query0)"
    and req: "request r (queryAt query0 pages sizes r) = Inr (resultAt query0 pages items sizes r)"
  shows "fetchPages request r (queryAt query0 pages sizes r) result trace
           = (if Suc r < maxPages query0 pages
              then fetchPages request (Suc r) (queryAt query0 pages sizes (Suc r))
                     (result @ pageItems query0 pages items r)
                     (trace @ [SendQuery (queryAt query0 pages sizes r)])
              else Some (result @ pageItems query0 pages items r,
                         trace @ [SendQuery (queryAt query0 pages sizes r)]))"
proof -
  let ?Q = "queryAt query0 pages sizes r"
  let ?nxt = "\<lambda>n. Suc r < pages n"
  have dQ: "distinct (map fst ?Q)" unfolding map_fst_queryAt using d by (simp add: distinct_map_filter)
  from mergeResult_paged[OF dQ subset_refl, of "items r" ?nxt "sizes r" result "[]"]
  obtain query' where
    m: "mergeResult (resultAt query0 pages items sizes r) ?Q result []
          = Inr (query',
                 result @ concat (map (\<lambda>entry. map removeAliasFieldNames (items r (fst entry))) ?Q),
                 map fst (filter (\<lambda>entry. ?nxt (fst entry)) ?Q))"
    and k: "fst ` set query' = fst ` set ?Q"
    and v: "\<forall>k. map_of query' k =
                (if k \<in> fst ` set (filter (\<lambda>entry. ?nxt (fst entry)) ?Q)
                 then map_option (\<lambda>sq. sq\<lparr> skip := skip sq + sizes r k \<rparr>) (map_of ?Q k)
                 else map_of ?Q k)"
    unfolding resultAt_def by auto
  let ?types = "map fst (filter (\<lambda>entry. ?nxt (fst entry)) ?Q)"
  have items: "concat (map (\<lambda>entry. map removeAliasFieldNames (items r (fst entry))) ?Q)
                 = pageItems query0 pages items r"
    by (simp add: queryAt_def pageItems_def comp_def)
  have dt: "distinct ?types" using dQ by (simp add: distinct_map_filter)
  have lookup: "map_of ?Q (fst entry) = Some (snd entry)" if "entry \<in> set ?Q" for entry
    using that dQ map_of_eq_Some_iff[of ?Q "fst entry" "snd entry"] by simp
  have inq: "\<forall>k \<in> set ?types. map_of query' k \<noteq> None"
  proof
    fix k assume kt: "k \<in> set ?types"
    then obtain entry where e: "entry \<in> set ?Q" "fst entry = k" by auto
    from kt v have "map_of query' k = map_option (\<lambda>sq. sq\<lparr> skip := skip sq + sizes r k \<rparr>) (map_of ?Q k)"
      by simp
    with lookup[OF e(1)] e(2) show "map_of query' k \<noteq> None" by simp
  qed
  have "pick query' ?types = map (\<lambda>k. (k, the (map_of query' k))) ?types"
    by (rule pick_distinct[OF dt inq])
  also have "\<dots> = map (\<lambda>entry. (fst entry, (snd entry)\<lparr> skip := skip (snd entry) + sizes r (fst entry) \<rparr>))
                       (filter (\<lambda>entry. ?nxt (fst entry)) ?Q)"
  proof -
    have "the (map_of query' (fst entry)) = (snd entry)\<lparr> skip := skip (snd entry) + sizes r (fst entry) \<rparr>"
      if "entry \<in> set (filter (\<lambda>entry. ?nxt (fst entry)) ?Q)" for entry
    proof -
      from that have "fst entry \<in> fst ` set (filter (\<lambda>entry. ?nxt (fst entry)) ?Q)" by blast
      with v have "map_of query' (fst entry)
          = map_option (\<lambda>sq. sq\<lparr> skip := skip sq + sizes r (fst entry) \<rparr>) (map_of ?Q (fst entry))"
        by simp
      moreover from that have "entry \<in> set ?Q" by simp
      ultimately show ?thesis using lookup by simp
    qed
    then show ?thesis by (simp add: comp_def)
  qed
  also have "\<dots> = queryAt query0 pages sizes (Suc r)" by (rule queryAt_Suc)
  finally have p: "pick query' ?types = queryAt query0 pages sizes (Suc r)" .
  have ne: "filter (\<lambda>entry. ?nxt (fst entry)) ?Q \<noteq> [] \<longleftrightarrow> Suc r < maxPages query0 pages"
  proof -
    have "?types = map fst (queryAt query0 pages sizes (Suc r))"
      using arg_cong[OF queryAt_Suc[of sizes r pages query0], of "map fst"] by (simp add: comp_def)
    then show ?thesis using queryAt_empty_iff[of query0 pages sizes "Suc r"] by auto
  qed
  show ?thesis
    by (subst fetchPages.simps) (simp add: req m items p ne)
qed

lemma fetchPages_run:
  assumes d: "distinct (map fst query0)"
    and p: "paged request query0 pages items sizes (maxPages query0 pages)"
  shows "r < maxPages query0 pages \<Longrightarrow>
         fetchPages request r (queryAt query0 pages sizes r) result trace
           = Some (result @ concat (map (pageItems query0 pages items) [r..<maxPages query0 pages]),
                   trace @ map (\<lambda>j. SendQuery (queryAt query0 pages sizes j)) [r..<maxPages query0 pages])"
proof (induction "maxPages query0 pages - r" arbitrary: r result trace)
  case 0
  then show ?case by simp
next
  case (Suc k)
  from p Suc.prems have req: "request r (queryAt query0 pages sizes r) = Inr (resultAt query0 pages items sizes r)"
    by (simp add: paged_def)
  note step = round_paged[of query0 request r pages sizes items result trace, OF d req]
  show ?case
  proof (cases "Suc r < maxPages query0 pages")
    case True
    from Suc.hyps(2) have k: "k = maxPages query0 pages - Suc r" by simp
    from Suc.prems have up: "[r..<maxPages query0 pages] = r # [Suc r..<maxPages query0 pages]"
      by (rule upt_conv_Cons)
    from Suc.hyps(1)[OF k True] step True up show ?thesis by simp
  next
    case False
    with Suc.prems have "maxPages query0 pages = Suc r" by simp
    with step show ?thesis by simp
  qed
qed

lemma fetchPages_error:
  assumes d: "distinct (map fst query0)"
    and p: "paged request query0 pages items sizes R"
    and RM: "R < maxPages query0 pages"
    and err: "request R (queryAt query0 pages sizes R) = Inl e"
  shows "r \<le> R \<Longrightarrow>
         fetchPages request r (queryAt query0 pages sizes r) result trace
           = Some ([], trace @ map (\<lambda>j. SendQuery (queryAt query0 pages sizes j)) [r..<Suc R]
                         @ [WarnFetching e (queryAt query0 pages sizes R)])"
proof (induction "R - r" arbitrary: r result trace)
  case 0
  then have "r = R" by simp
  with err show ?case by (subst fetchPages.simps) simp
next
  case (Suc k)
  then have lt: "r < R" by simp
  with p have req: "request r (queryAt query0 pages sizes r) = Inr (resultAt query0 pages items sizes r)"
    by (simp add: paged_def)
  from lt RM have more: "Suc r < maxPages query0 pages" by simp
  from Suc.hyps(2) have k: "k = R - Suc r" by simp
  from lt have le: "Suc r \<le> R" by simp
  from lt have up: "[r..<Suc R] = r # [Suc r..<Suc R]" by (simp add: upt_conv_Cons)
  from round_paged[of query0 request r pages sizes items result trace, OF d req] more Suc.hyps(1)[OF k le] up
  show ?case by simp
qed

lemma buildQuery_distinct:
  "buildQuery modelsByName maxPaginationSize dataModels query = Inr query0 \<Longrightarrow>
     distinct (map fst query) \<Longrightarrow> distinct (map fst query0)"
  by (induction dataModels arbitrary: query)
     (auto simp: distinct_update split: option.splits sum.splits)

lemma newsQuery_built:
  "buildQuery (keyBy newsModels) (Some 2) (filter (\<lambda>m. mtype m = DataModel) newsModels) []
     = Inr (newsQuery 0 @ tagsQuery)"
  by (simp add: newsModels_def articleModel_def seoModel_def tagModel_def keyBy_def
      defaultDocumentQueryFields_def modelFields_def fieldOrListItem_def spread_def
      toLowerCaseFirst_def toLowerCaseChar_def newsQuery_def tagsQuery_def documentFields_def)

lemma newsServer_paged:
  "paged newsServer (newsQuery 0 @ tagsQuery) newsPages newsItems newsSizes 2"
proof -
  have r: "r < 2 \<longleftrightarrow> r = 0 \<or> r = Suc 0" for r :: nat by auto
  show ?thesis
    by (auto simp: paged_def r newsServer_def queryAt_def resultAt_def advanced_def newsQuery_def
        tagsQuery_def newsPages_def newsItems_def newsSizes_def newsData_def)
qed

lemma news_maxPages: "maxPages (newsQuery 0 @ tagsQuery) newsPages = 2"
  by (simp add: maxPages_def newsQuery_def tagsQuery_def newsPages_def)

text \<open>
  C4. If every stream of the combined query answers as a stream of \<open>pages n\<close> pages
  (\<open>hasNextPage\<close> true on all its responses but the last), \<^verbatim>\<open>getEntries\<close> returns, after
  exactly \<open>maxPages\<close> requests: the request of round \<open>r\<close> carries the streams that have a
  page \<open>r\<close>, each with its \<open>skip\<close> advanced by the page sizes reported so far, and the
  array returned is the concatenation, round by round and stream by stream, of all items
  of all pages. The loop is a do-while, so there is at least one stream; with none it
  still sends one request.
\<close>

theorem getEntries_pagination:
  assumes "buildQuery (keyBy models) maxPaginationSize (filter (\<lambda>m. mtype m = DataModel) models) []
             = Inr query0"
    and "query0 \<noteq> []"
    and "\<forall>entry \<in> set query0. 0 < pages (fst entry)"
    and "paged request query0 pages items sizes (maxPages query0 pages)"
  shows "getEntries request models maxPaginationSize
           = Some (Inr (concat (map (pageItems query0 pages items) [0..<maxPages query0 pages]),
                        map (\<lambda>r. SendQuery (queryAt query0 pages sizes r)) [0..<maxPages query0 pages]))"
proof -
  from buildQuery_distinct[OF assms(1)] have d: "distinct (map fst query0)" by simp
  from assms(2,3) have pos: "0 < maxPages query0 pages"
    by (cases query0) (auto simp: maxPages_def less_maxList_iff)
  from fetchPages_run[OF d assms(4) pos, of "[]" "[]"] queryAt_0[OF assms(3), of sizes] assms(1)
  show ?thesis by (simp add: getEntries_def)
qed

theorem getEntries_pagination_witness:
  "getEntries newsServer newsModels (Some 2)
     = Some (Inr ([entryOf ''Article'' ''a1'', entryOf ''Article'' ''a2'', entryOf ''Tag'' ''t1'',
                   entryOf ''Article'' ''a3''],
                  [SendQuery (newsQuery 0 @ tagsQuery), SendQuery (newsQuery 2)]))"
proof -
  have ne: "newsQuery 0 @ tagsQuery \<noteq> []" by (simp add: newsQuery_def)
  have pos: "\<forall>entry \<in> set (newsQuery 0 @ tagsQuery). 0 < newsPages (fst entry)"
    by (simp add: newsQuery_def tagsQuery_def newsPages_def)
  have up: "[0..<2] = [0, Suc 0]" by (simp add: upt_rec)
  have strip: "removeAliasFieldNames (entryOf ''Article'' i) = entryOf ''Article'' i"
    "removeAliasFieldNames (entryOf ''Tag'' i) = entryOf ''Tag'' i" for i
    by (simp_all add: entryOf_def stripAliasKeys_def typenameOf_def mapKeys_def stripAlias_def
        aliasPrefix_def)
  have its: "pageItems (newsQuery 0 @ tagsQuery) newsPages newsItems 0
               @ pageItems (newsQuery 0 @ tagsQuery) newsPages newsItems (Suc 0)
               = [entryOf ''Article'' ''a1'', entryOf ''Article'' ''a2'', entryOf ''Tag'' ''t1'',
                  entryOf ''Article'' ''a3'']"
    by (simp add: pageItems_def newsQuery_def tagsQuery_def newsPages_def newsItems_def
        newsData_def strip)
  have q0: "queryAt (newsQuery 0 @ tagsQuery) newsPages newsSizes 0 = newsQuery 0 @ tagsQuery"
    by (simp add: queryAt_def advanced_def newsQuery_def tagsQuery_def newsPages_def)
  have q1: "queryAt (newsQuery 0 @ tagsQuery) newsPages newsSizes (Suc 0) = newsQuery 2"
    by (simp add: queryAt_def advanced_def newsQuery_def tagsQuery_def newsPages_def newsSizes_def)
  from getEntries_pagination[OF newsQuery_built ne pos, of newsServer newsItems newsSizes]
    newsServer_paged news_maxPages
  show ?thesis by (simp add: up its q0 q1)
qed

text \<open>
  C8. A request that raises aborts the fetch from any state of the loop: the error is
  caught, one warning is logged and the empty array is returned, whatever had been
  accumulated. In a run whose rounds before \<open>R\<close> were answered and merged and whose
  round \<open>R\<close> raises, \<^verbatim>\<open>getEntries\<close> returns the empty array after \<open>R + 1\<close> requests and
  that one warning.
\<close>

theorem getEntries_error_aborts:
  assumes "buildQuery (keyBy models) maxPaginationSize (filter (\<lambda>m. mtype m = DataModel) models) []
             = Inr query0"
    and "\<forall>entry \<in> set query0. 0 < pages (fst entry)"
    and "paged request query0 pages items sizes R"
    and "R < maxPages query0 pages"
    and "request R (queryAt query0 pages sizes R) = Inl e"
  shows "getEntries request models maxPaginationSize
           = Some (Inr ([], map (\<lambda>r. SendQuery (queryAt query0 pages sizes r)) [0..<Suc R]
                              @ [WarnFetching e (queryAt query0 pages sizes R)]))
         \<and> (\<forall>round query result trace e'.
               request round query = Inl e' \<longrightarrow>
               fetchPages request round query result trace
                 = Some ([], trace @ [SendQuery query, WarnFetching e' query]))"
proof (intro conjI allI impI)
  from buildQuery_distinct[OF assms(1)] have d: "distinct (map fst query0)" by simp
  from fetchPages_error[OF d assms(3,4,5), of 0 "[]" "[]"] queryAt_0[OF assms(2), of sizes] assms(1)
  show "getEntries request models maxPaginationSize
           = Some (Inr ([], map (\<lambda>r. SendQuery (queryAt query0 pages sizes r)) [0..<Suc R]
                              @ [WarnFetching e (queryAt query0 pages sizes R)]))"
    by (simp add: getEntries_def)
next
  fix round query result trace e'
  assume "request round query = Inl e'"
  then show "fetchPages request round query result trace
                 = Some ([], trace @ [SendQuery query, WarnFetching e' query])"
    by (subst fetchPages.simps) simp
qed

theorem getEntries_error_aborts_witness:
  "getEntries failingServer newsModels (Some 2)
     = Some (Inr ([], [SendQuery (newsQuery 0 @ tagsQuery), SendQuery (newsQuery 2),
                       WarnFetching (RequestError ''socket hang up'') (newsQuery 2)]))
   \<and> fetchPages failingServer 1 (newsQuery 2) [entryOf ''Article'' ''a1''] []
       = Some ([], [SendQuery (newsQuery 2), WarnFetching (RequestError ''socket hang up'') (newsQuery 2)])"
proof -
  have pos: "\<forall>entry \<in> set (newsQuery 0 @ tagsQuery). 0 < newsPages (fst entry)"
    by (simp add: newsQuery_def tagsQuery_def newsPages_def)
  have pg: "paged failingServer (newsQuery 0 @ tagsQuery) newsPages newsItems newsSizes (Suc 0)"
    using newsServer_paged by (simp add: paged_def failingServer_def)
  have lt: "Suc 0 < maxPages (newsQuery 0 @ tagsQuery) newsPages" by (simp add: news_maxPages)
  have q0: "queryAt (newsQuery 0 @ tagsQuery) newsPages newsSizes 0 = newsQuery 0 @ tagsQuery"
    by (simp add: queryAt_def advanced_def newsQuery_def tagsQuery_def newsPages_def)
  have q1: "queryAt (newsQuery 0 @ tagsQuery) newsPages newsSizes (Suc 0) = newsQuery 2"
    by (simp add: queryAt_def advanced_def newsQuery_def tagsQuery_def newsPages_def newsSizes_def)
  have err: "failingServer (Suc 0) (queryAt (newsQuery 0 @ tagsQuery) newsPages newsSizes (Suc 0))
               = Inl (RequestError ''socket hang up'')"
    by (simp add: failingServer_def)
  have err': "failingServer 1 (newsQuery 2) = Inl (RequestError ''socket hang up'')"
    by (simp add: failingServer_def)
  note T = getEntries_error_aborts[OF newsQuery_built pos pg lt err]
  have up: "[0..<Suc (Suc 0)] = [0, Suc 0]" by (simp add: upt_rec)
  from T[THEN conjunct1] have a:
    "getEntries failingServer newsModels (Some 2)
     = Some (Inr ([], [SendQuery (newsQuery 0 @ tagsQuery), SendQuery (newsQuery 2),
                       WarnFetching (RequestError ''socket hang up'') (newsQuery 2)]))"
    by (simp add: up q0 q1)
  from T[THEN conjunct2] err' have b:
    "fetchPages failingServer 1 (newsQuery 2) [entryOf ''Article'' ''a1''] []
       = Some ([], [SendQuery (newsQuery 2), WarnFetching (RequestError ''socket hang up'') (newsQuery 2)])"
    by simp
  from a b show ?thesis by (intro conjI)
qed

end
